theory Spec2Isabelle
  imports Complex_Main "HOL-Library.AList" "HOL-Library.Sublist"
begin

section \<open>The reverse-position bot of \<^verbatim>\<open>mt5_reverse_bot.py\<close>\<close>

text \<open>
  The bot polls a MetaTrader 5 terminal. In every cycle of its main loop it reads the open
  positions, splits them into originals and its own reverses, rebuilds the table
  \<^verbatim>\<open>orig_to_rev\<close> from the comments of the reverses, opens a reverse for every original
  that has none, and then closes or re-synchronises the reverses it tracks.

  The terminal is outside the program. It is modelled as a value \<open>g\<close> of the record
  \<open>'v gateway\<close>: one field per function of the \<^verbatim>\<open>MetaTrader5\<close> package that the source
  calls (and \<^verbatim>\<open>time.sleep\<close>), each a function on a hidden venue state \<open>'v\<close> that returns
  its answer together with the next venue state. Nothing is assumed of \<open>g\<close>: between any two
  calls the venue may change in any way. The engine's own state (\<^verbatim>\<open>orig_to_rev\<close>,
  \<^verbatim>\<open>reversed_once\<close>) is the record \<open>engine\<close>, passed through the cycle. Every request
  handed to \<^verbatim>\<open>mt5.order_send\<close> is appended to a log, so that theorems can speak of the
  commands a cycle issues.

  Numbers: tickets, magic numbers and return codes are Python ints (\<open>int\<close>). Prices and
  volumes are Python floats; they are modelled as \<open>real\<close>, comparison and doubling being
  exact on floats, and \<^verbatim>\<open>round(x, n)\<close> as the exact decimal rounding (half to even) of the
  value, which is what CPython computes before it converts the decimal back to the nearest
  float. NaN and the infinities are not modelled. Strings are lists of 8-bit characters;
  among those the decimal digits of \<^verbatim>\<open>\d\<close> are exactly \<^verbatim>\<open>0\<close> to \<^verbatim>\<open>9\<close>. Python's optional
  limit on the number of digits that \<^verbatim>\<open>int()\<close> converts is not modelled.
\<close>

subsection \<open>User configuration (lines 19-27)\<close>

definition MAGIC :: int where
  "MAGIC = 987654321"

definition DEVIATION :: int where
  "DEVIATION = 20"

definition POLL_SECONDS :: real where
  "POLL_SECONDS = 1"

definition COMMENT_PREFIX :: string where
  "COMMENT_PREFIX = ''REV of ''"

subsection \<open>Constants and tuples of the MetaTrader5 package\<close>

text \<open>
  The package is not part of the repository. Its constants have the values the package
  documents; only their being distinct matters below.
\<close>

definition POSITION_TYPE_BUY :: int where
  "POSITION_TYPE_BUY = 0"

definition POSITION_TYPE_SELL :: int where
  "POSITION_TYPE_SELL = 1"

definition ORDER_TYPE_BUY :: int where
  "ORDER_TYPE_BUY = 0"

definition ORDER_TYPE_SELL :: int where
  "ORDER_TYPE_SELL = 1"

definition TRADE_RETCODE_DONE :: int where
  "TRADE_RETCODE_DONE = 10009"

text \<open>The fields of \<^verbatim>\<open>mt5.TradePosition\<close> that the source reads; \<open>ptype\<close> is \<^verbatim>\<open>type\<close>.\<close>

record TradePosition =
  ticket :: int
  symbol :: string
  ptype :: int
  volume :: real
  sl :: real
  tp :: real
  magic :: int
  comment :: string

record SymbolInfo =
  digits :: int
  visible :: bool

record Tick =
  ask :: real
  bid :: real

record OrderSendResult =
  retcode :: int
  order_ticket :: int

text \<open>
  The three request dictionaries the source builds. \<open>Deal_open\<close> is the dictionary of
  \<^verbatim>\<open>send_market_order\<close>: symbol, type, volume, price, sl and tp (absent keys are \<open>None\<close>),
  magic, comment. \<open>Sltp\<close> is that of \<^verbatim>\<open>modify_position_sltp\<close>: position, symbol, sl, tp.
  \<open>Deal_close\<close> is that of \<^verbatim>\<open>close_position\<close>: position, symbol, volume, type, price (which
  is \<^verbatim>\<open>None\<close> when there is no tick). The entries that are the same in every request of a
  kind (action, deviation, filling and time type, the magic and comment of the last two)
  are left out.
\<close>

datatype request =
    Deal_open string int real real "real option" "real option" int string
  | Sltp int string real real
  | Deal_close int string real int "real option"

record 'v gateway =
  positions_get :: "'v \<Rightarrow> TradePosition list \<times> 'v"
  positions_get_symbol :: "string \<Rightarrow> 'v \<Rightarrow> TradePosition list \<times> 'v"
  symbol_info :: "string \<Rightarrow> 'v \<Rightarrow> SymbolInfo option \<times> 'v"
  symbol_info_tick :: "string \<Rightarrow> 'v \<Rightarrow> Tick option \<times> 'v"
  symbol_select :: "string \<Rightarrow> bool \<Rightarrow> 'v \<Rightarrow> bool \<times> 'v"
  order_send :: "request \<Rightarrow> 'v \<Rightarrow> OrderSendResult option \<times> 'v"
  sleep :: "real \<Rightarrow> 'v \<Rightarrow> 'v"

text \<open>
  The world a cycle runs in: the venue state and a log. The log records every request
  handed to \<^verbatim>\<open>mt5.order_send\<close> with the answer it got (\<open>Sent\<close>), and every list that
  \<^verbatim>\<open>mt5.positions_get(symbol=...)\<close> returned (\<open>Listed\<close>). The program does not read the
  log; it is there for the theorems.
\<close>

datatype event =
    Sent request "OrderSendResult option"
  | Listed string "TradePosition list"

type_synonym 'v world = "'v \<times> event list"

definition call :: "('v \<Rightarrow> 'a \<times> 'v) \<Rightarrow> 'v world \<Rightarrow> 'a \<times> 'v world" where
  "call f w = (case f (fst w) of (r, v') \<Rightarrow> (r, (v', snd w)))"

definition send :: "'v gateway \<Rightarrow> request \<Rightarrow> 'v world \<Rightarrow> OrderSendResult option \<times> 'v world" where
  "send g req w = (case order_send g req (fst w) of (r, v') \<Rightarrow> (r, (v', snd w @ [Sent req r])))"

definition query :: "'v gateway \<Rightarrow> string \<Rightarrow> 'v world \<Rightarrow> TradePosition list \<times> 'v world" where
  "query g symb w =
     (case positions_get_symbol g symb (fst w) of (ps, v') \<Rightarrow> (ps, (v', snd w @ [Listed symb ps])))"

subsection \<open>Python built-ins: \<^verbatim>\<open>round\<close> and \<^verbatim>\<open>str\<close> of an int\<close>

definition round_half_even :: "real \<Rightarrow> int" where
  "round_half_even x =
     (let f = \<lfloor>x\<rfloor>; d = x - of_int f
      in if d < 1 / 2 then f else if 1 / 2 < d then f + 1 else if even f then f else f + 1)"

definition py_round :: "real \<Rightarrow> int \<Rightarrow> real" where
  "py_round x n =
     (if 0 \<le> n then of_int (round_half_even (x * 10 ^ nat n)) / 10 ^ nat n
      else of_int (round_half_even (x / 10 ^ nat (- n))) * 10 ^ nat (- n))"

definition digit_char :: "nat \<Rightarrow> char" where
  "digit_char d = char_of (48 + d)"

definition is_digit :: "char \<Rightarrow> bool" where
  "is_digit c = (48 \<le> (of_char c :: nat) \<and> (of_char c :: nat) \<le> 57)"

definition digit_val :: "char \<Rightarrow> nat" where
  "digit_val c = of_char c - 48"

fun dec :: "nat \<Rightarrow> string" where
  "dec n = (if n < 10 then [digit_char n] else dec (n div 10) @ [digit_char (n mod 10)])"

definition str_int :: "int \<Rightarrow> string" where
  "str_int i = (if i < 0 then CHR ''-'' # dec (nat (- i)) else dec (nat i))"

definition int_of_digits :: "string \<Rightarrow> int" where
  "int_of_digits ds = int (foldl (\<lambda>a c. 10 * a + digit_val c) 0 ds)"

subsection \<open>Helpers (lines 31-94)\<close>

definition normalize_price :: "'v gateway \<Rightarrow> string \<Rightarrow> real \<Rightarrow> 'v world \<Rightarrow> real \<times> 'v world" where
  "normalize_price g symb price w =
     (case call (symbol_info g symb) w of (info, w1) \<Rightarrow>
        (case info of
           None \<Rightarrow> (price, w1)
         | Some i \<Rightarrow> (py_round price (digits i), w1)))"

definition price_from_tick :: "'v gateway \<Rightarrow> string \<Rightarrow> int \<Rightarrow> 'v world \<Rightarrow> real option \<times> 'v world" where
  "price_from_tick g symb position_type w =
     (case call (symbol_info_tick g symb) w of (tick, w1) \<Rightarrow>
        (case tick of
           None \<Rightarrow> (None, w1)
         | Some t \<Rightarrow>
             (if position_type = POSITION_TYPE_BUY then (Some (ask t), w1)
              else (Some (bid t), w1))))"

definition ensure_symbol :: "'v gateway \<Rightarrow> string \<Rightarrow> 'v world \<Rightarrow> bool \<times> 'v world" where
  "ensure_symbol g symb w =
     (case call (symbol_info g symb) w of (info, w1) \<Rightarrow>
        (case info of
           None \<Rightarrow> (False, w1)
         | Some i \<Rightarrow>
             (if \<not> visible i then call (symbol_select g symb True) w1 else (True, w1))))"

definition is_our_reverse :: "TradePosition \<Rightarrow> bool" where
  "is_our_reverse pos =
     (if magic pos \<noteq> MAGIC then False
      else if comment pos \<noteq> [] \<and> prefix COMMENT_PREFIX (comment pos) then True
      else False)"

text \<open>
  \<^verbatim>\<open>re.match(rf"^{re.escape(COMMENT_PREFIX)}(\d+)$", comment)\<close>: the prefix, then the longest
  run of digits, which must not be empty, then \<^verbatim>\<open>$\<close>. Without \<^verbatim>\<open>re.MULTILINE\<close> Python's
  \<^verbatim>\<open>$\<close> matches at the end of the string and also just before a newline that is the
  last character of the string. A shorter run of digits cannot match, since \<^verbatim>\<open>$\<close> would
  then stand before a digit.
\<close>

definition parse_original_ticket_from_comment :: "string \<Rightarrow> int option" where
  "parse_original_ticket_from_comment cmt =
     (if prefix COMMENT_PREFIX cmt then
        (let rest = drop (length COMMENT_PREFIX) cmt;
             ds = takeWhile is_digit rest;
             trail = dropWhile is_digit rest
         in if ds \<noteq> [] \<and> (trail = [] \<or> trail = [CHR 0x0A]) then Some (int_of_digits ds) else None)
      else None)"

definition reverse_type :: "int \<Rightarrow> int" where
  "reverse_type original_type =
     (if original_type = POSITION_TYPE_BUY then ORDER_TYPE_SELL else ORDER_TYPE_BUY)"

text \<open>
  \<^verbatim>\<open>orig.tp if orig.tp and orig.tp > 0 else None\<close>: a float is true when it is not zero.
\<close>

definition desired_sltp_for_reverse :: "TradePosition \<Rightarrow> real option \<times> real option" where
  "desired_sltp_for_reverse orig =
     (let rev_sl = (if tp orig \<noteq> 0 \<and> tp orig > 0 then Some (tp orig) else None);
          rev_tp = (if sl orig \<noteq> 0 \<and> sl orig > 0 then Some (sl orig) else None)
      in (rev_sl, rev_tp))"

subsection \<open>Orders (lines 96-172)\<close>

text \<open>\<^verbatim>\<open>if sl is not None: request["sl"] = normalize_price(symbol, sl)\<close>, and the same for tp.\<close>

definition normalize_if_set :: "'v gateway \<Rightarrow> string \<Rightarrow> real option \<Rightarrow> 'v world \<Rightarrow> real option \<times> 'v world" where
  "normalize_if_set g symb level w =
     (case level of
        None \<Rightarrow> (None, w)
      | Some x \<Rightarrow> (case normalize_price g symb x w of (y, w1) \<Rightarrow> (Some y, w1)))"

definition send_market_order ::
  "'v gateway \<Rightarrow> string \<Rightarrow> int \<Rightarrow> real \<Rightarrow> real option \<Rightarrow> real option \<Rightarrow> string \<Rightarrow> int \<Rightarrow> 'v world
     \<Rightarrow> int option \<times> 'v world" where
  "send_market_order g symb order_type vol sl_arg tp_arg cmt mg w =
     (case ensure_symbol g symb w of (ok, w1) \<Rightarrow>
        if \<not> ok then (None, w1)
        else
          (case price_from_tick g symb
                  (if order_type = ORDER_TYPE_BUY then POSITION_TYPE_BUY else POSITION_TYPE_SELL) w1
           of (price, w2) \<Rightarrow>
             (case price of
                None \<Rightarrow> (None, w2)
              | Some pr \<Rightarrow>
                  (case normalize_if_set g symb sl_arg w2 of (rsl, w3) \<Rightarrow>
                   case normalize_if_set g symb tp_arg w3 of (rtp, w4) \<Rightarrow>
                   case send g (Deal_open symb order_type vol pr rsl rtp mg cmt) w4 of (result, w5) \<Rightarrow>
                     (case result of
                        None \<Rightarrow> (None, w5)
                      | Some r \<Rightarrow>
                          (if retcode r \<noteq> TRADE_RETCODE_DONE then (None, w5)
                           else (Some (order_ticket r), w5)))))))"

text \<open>\<^verbatim>\<open>normalize_price(symbol, sl) if sl is not None else 0.0\<close>\<close>

definition normalize_or_zero :: "'v gateway \<Rightarrow> string \<Rightarrow> real option \<Rightarrow> 'v world \<Rightarrow> real \<times> 'v world" where
  "normalize_or_zero g symb level w =
     (case level of
        None \<Rightarrow> (0, w)
      | Some x \<Rightarrow> normalize_price g symb x w)"

definition modify_position_sltp ::
  "'v gateway \<Rightarrow> int \<Rightarrow> string \<Rightarrow> real option \<Rightarrow> real option \<Rightarrow> 'v world \<Rightarrow> bool \<times> 'v world" where
  "modify_position_sltp g position_ticket symb sl_arg tp_arg w =
     (case normalize_or_zero g symb sl_arg w of (nsl, w1) \<Rightarrow>
      case normalize_or_zero g symb tp_arg w1 of (ntp, w2) \<Rightarrow>
      case send g (Sltp position_ticket symb nsl ntp) w2 of (res, w3) \<Rightarrow>
        (case res of
           None \<Rightarrow> (False, w3)
         | Some r \<Rightarrow> (if retcode r \<noteq> TRADE_RETCODE_DONE then (False, w3) else (True, w3))))"

definition close_position ::
  "'v gateway \<Rightarrow> int \<Rightarrow> string \<Rightarrow> real \<Rightarrow> int \<Rightarrow> 'v world \<Rightarrow> bool \<times> 'v world" where
  "close_position g position_ticket symb vol position_type w =
     (let opposite = (if position_type = POSITION_TYPE_BUY then ORDER_TYPE_SELL else ORDER_TYPE_BUY)
      in case price_from_tick g symb position_type w of (price, w1) \<Rightarrow>
         case send g (Deal_close position_ticket symb vol opposite price) w1 of (res, w2) \<Rightarrow>
           (case res of
              None \<Rightarrow> (False, w2)
            | Some r \<Rightarrow> (if retcode r \<noteq> TRADE_RETCODE_DONE then (False, w2) else (True, w2))))"

subsection \<open>The main loop (lines 176-297)\<close>

text \<open>
  \<^verbatim>\<open>orig_to_rev\<close> is a Python dict, which keeps its keys in the order of their first
  insertion: an association list, written with \<open>AList.update\<close> (in place when the key is
  there, at the end otherwise) and \<open>AList.delete\<close> (\<^verbatim>\<open>pop\<close>). \<^verbatim>\<open>reversed_once\<close> is a set.
\<close>

record engine =
  orig_to_rev :: "(int \<times> int) list"
  reversed_once :: "int set"

definition initial_engine :: engine where
  "initial_engine = \<lparr>orig_to_rev = [], reversed_once = {}\<rparr>"

text \<open>Lines 200-206: the snapshot split into originals and reverses, order kept.\<close>

definition classify :: "TradePosition list \<Rightarrow> TradePosition list \<times> TradePosition list" where
  "classify all_positions =
     (filter (\<lambda>p. \<not> is_our_reverse p) all_positions, filter is_our_reverse all_positions)"

text \<open>
  Lines 210-215, the body of the loop over the reverses. \<^verbatim>\<open>comment_index\<close> is written
  there and never read, so it is left out.
\<close>

definition rebuild_step :: "TradePosition \<Rightarrow> engine \<Rightarrow> engine" where
  "rebuild_step rp st =
     (case parse_original_ticket_from_comment (comment rp) of
        None \<Rightarrow> st
      | Some orig_ticket \<Rightarrow>
          st\<lparr>orig_to_rev := AList.update orig_ticket (ticket rp) (orig_to_rev st),
             reversed_once := insert orig_ticket (reversed_once st)\<rparr>)"

definition rebuild :: "TradePosition list \<Rightarrow> engine \<Rightarrow> engine" where
  "rebuild reverses st = fold rebuild_step reverses st"

text \<open>
  Lines 241-246: the first position of the fresh list that is a reverse of ours naming the
  original is linked; without one the state stays as it is.
\<close>

definition link_new_reverse :: "TradePosition \<Rightarrow> TradePosition list \<Rightarrow> engine \<Rightarrow> engine" where
  "link_new_reverse op new_positions st =
     (case find (\<lambda>p. is_our_reverse p \<and> parse_original_ticket_from_comment (comment p) = Some (ticket op))
             new_positions of
        None \<Rightarrow> st
      | Some p \<Rightarrow>
          st\<lparr>orig_to_rev := AList.update (ticket op) (ticket p) (orig_to_rev st),
             reversed_once := insert (ticket op) (reversed_once st)\<rparr>)"

text \<open>Lines 219-246, the body of the loop over the originals.\<close>

definition open_step :: "'v gateway \<Rightarrow> TradePosition \<Rightarrow> engine \<times> 'v world \<Rightarrow> engine \<times> 'v world" where
  "open_step g op sw =
     (case sw of (st, w) \<Rightarrow>
        if ticket op \<in> reversed_once st \<and> map_of (orig_to_rev st) (ticket op) = None then (st, w)
        else if map_of (orig_to_rev st) (ticket op) = None then
          (case ensure_symbol g (symbol op) w of (ok, w1) \<Rightarrow>
             if \<not> ok then (st, w1)
             else
               (let reverse_vol = py_round (volume op * 2) 2;
                    rtype = reverse_type (ptype op);
                    (rsl, rtp) = desired_sltp_for_reverse op;
                    cmt = COMMENT_PREFIX @ str_int (ticket op)
                in case send_market_order g (symbol op) rtype reverse_vol rsl rtp cmt MAGIC w1
                   of (ord, w2) \<Rightarrow>
                     (case ord of
                        None \<Rightarrow> (st, w2)
                      | Some _ \<Rightarrow>
                          (case query g (symbol op) (sleep g (2 / 10) (fst w2), snd w2)
                           of (new_positions, w3) \<Rightarrow> (link_new_reverse op new_positions st, w3)))))
        else (st, w))"

text \<open>Line 252: the dict comprehension; a later position of the same ticket wins.\<close>

definition pos_by_ticket :: "TradePosition list \<Rightarrow> int \<Rightarrow> TradePosition option" where
  "pos_by_ticket ps = fold (\<lambda>p m. m(ticket p \<mapsto> p)) ps Map.empty"

text \<open>Lines 276-277 and 281-289: one of the two levels of a live pair, compared.\<close>

definition current_level :: "real \<Rightarrow> real option" where
  "current_level x = (if x \<noteq> 0 \<and> x > 0 then Some x else None)"

definition level_differs :: "'v gateway \<Rightarrow> string \<Rightarrow> real option \<Rightarrow> real option \<Rightarrow> 'v world \<Rightarrow> bool \<times> 'v world" where
  "level_differs g symb desired cur w =
     (case desired of
        None \<Rightarrow> (cur \<noteq> None, w)
      | Some d \<Rightarrow>
          (case cur of
             None \<Rightarrow> (True, w)
           | Some c \<Rightarrow>
               (case normalize_price g symb d w of (nd, w1) \<Rightarrow>
                case normalize_price g symb c w1 of (nc, w2) \<Rightarrow> (nd \<noteq> nc, w2))))"

text \<open>Lines 272-292: both positions of the pair are live.\<close>

definition sync_sltp :: "'v gateway \<Rightarrow> TradePosition \<Rightarrow> TradePosition \<Rightarrow> 'v world \<Rightarrow> 'v world" where
  "sync_sltp g orig_pos rev_pos w =
     (let (desired_sl, desired_tp) = desired_sltp_for_reverse orig_pos;
          cur_sl = current_level (sl rev_pos);
          cur_tp = current_level (tp rev_pos)
      in case level_differs g (symbol rev_pos) desired_sl cur_sl w of (sl_differs, w1) \<Rightarrow>
         case level_differs g (symbol rev_pos) desired_tp cur_tp w1 of (tp_differs, w2) \<Rightarrow>
           if sl_differs \<or> tp_differs
           then snd (modify_position_sltp g (ticket rev_pos) (symbol rev_pos) desired_sl desired_tp w2)
           else w2)"

text \<open>Lines 255-292, the body of the loop over \<^verbatim>\<open>list(orig_to_rev.items())\<close>.\<close>

definition sync_step ::
  "'v gateway \<Rightarrow> (int \<Rightarrow> TradePosition option) \<Rightarrow> int \<times> int \<Rightarrow> engine \<times> 'v world \<Rightarrow> engine \<times> 'v world" where
  "sync_step g by_ticket pair sw =
     (case pair of (orig_ticket, rev_ticket) \<Rightarrow>
      case sw of (st, w) \<Rightarrow>
        (case by_ticket orig_ticket of
           None \<Rightarrow>
             (let w1 = (case by_ticket rev_ticket of
                          None \<Rightarrow> w
                        | Some rev_pos \<Rightarrow>
                            snd (close_position g (ticket rev_pos) (symbol rev_pos) (volume rev_pos)
                                   (ptype rev_pos) w))
              in (st\<lparr>orig_to_rev := AList.delete orig_ticket (orig_to_rev st)\<rparr>, w1))
         | Some orig_pos \<Rightarrow>
             (case by_ticket rev_ticket of
                None \<Rightarrow> (st\<lparr>orig_to_rev := AList.delete orig_ticket (orig_to_rev st)\<rparr>, w)
              | Some rev_pos \<Rightarrow> (st, sync_sltp g orig_pos rev_pos w))))"

text \<open>Lines 197-246: the snapshot, the rebuilt table and the opening pass.\<close>

definition pass_a :: "'v gateway \<Rightarrow> engine \<times> 'v world \<Rightarrow> engine \<times> 'v world" where
  "pass_a g sw =
     (case sw of (st, w) \<Rightarrow>
      case call (positions_get g) w of (all_positions, w1) \<Rightarrow>
      case classify all_positions of (originals, reverses) \<Rightarrow>
        fold (open_step g) originals (rebuild reverses st, w1))"

text \<open>Lines 252-292: the second snapshot and the pass over the tracked pairs.\<close>

definition pass_b :: "'v gateway \<Rightarrow> engine \<times> 'v world \<Rightarrow> engine \<times> 'v world" where
  "pass_b g sw =
     (case sw of (st, w) \<Rightarrow>
      case call (positions_get g) w of (ps, w1) \<Rightarrow>
        fold (sync_step g (pos_by_ticket ps)) (orig_to_rev st) (st, w1))"

text \<open>One turn of \<^verbatim>\<open>while True\<close>, with the sleep that ends it.\<close>

definition cycle :: "'v gateway \<Rightarrow> engine \<times> 'v world \<Rightarrow> engine \<times> 'v world" where
  "cycle g sw =
     (case pass_b g (pass_a g sw) of (st, w) \<Rightarrow> (st, (sleep g POLL_SECONDS (fst w), snd w)))"

text \<open>
  The loop has no exit. \<open>cycles g n\<close> is its first \<open>n\<close> turns; a statement for every \<open>n\<close>
  is a statement about every moment of a run.
\<close>

fun cycles :: "'v gateway \<Rightarrow> nat \<Rightarrow> engine \<times> 'v world \<Rightarrow> engine \<times> 'v world" where
  "cycles g 0 sw = sw"
| "cycles g (Suc n) sw = cycles g n (cycle g sw)"

subsection \<open>Reading the log\<close>

text \<open>
  An open command for the original \<open>k\<close> is a \<open>Deal_open\<close> whose comment is the prefix and
  \<open>k\<close> in decimal, as line 232 writes it; a close or a modify command of the position \<open>r\<close>
  names \<open>r\<close> as its position.
\<close>

fun is_open_for :: "int \<Rightarrow> request \<Rightarrow> bool" where
  "is_open_for k (Deal_open s t v p a b m c) = (c = COMMENT_PREFIX @ str_int k)"
| "is_open_for k (Sltp pos s a b) = False"
| "is_open_for k (Deal_close pos s v t p) = False"

fun is_close_of :: "int \<Rightarrow> request \<Rightarrow> bool" where
  "is_close_of r (Deal_close pos s v t p) = (pos = r)"
| "is_close_of r (Deal_open s t v p a b m c) = False"
| "is_close_of r (Sltp pos s a b) = False"

fun is_modify_of :: "int \<Rightarrow> request \<Rightarrow> bool" where
  "is_modify_of r (Sltp pos s a b) = (pos = r)"
| "is_modify_of r (Deal_open s t v p a b m c) = False"
| "is_modify_of r (Deal_close pos s v t p) = False"

fun is_open :: "request \<Rightarrow> bool" where
  "is_open (Deal_open s t v p a b m c) = True"
| "is_open (Sltp pos s a b) = False"
| "is_open (Deal_close pos s v t p) = False"

text \<open>A request is accepted when its answer is there and carries the return code DONE.\<close>

definition accepted :: "OrderSendResult option \<Rightarrow> bool" where
  "accepted res = (case res of None \<Rightarrow> False | Some r \<Rightarrow> retcode r = TRADE_RETCODE_DONE)"



text \<open>The events a step adds to the log, and the requests among them.\<close>

definition events :: "'v world \<Rightarrow> 'v world \<Rightarrow> event list" where
  "events w w' = drop (length (snd w)) (snd w')"

fun commands :: "event list \<Rightarrow> request list" where
  "commands [] = []"
| "commands (Sent req res # evs) = req # commands evs"
| "commands (Listed s ps # evs) = commands evs"

definition issued :: "'v world \<Rightarrow> 'v world \<Rightarrow> request list" where
  "issued w w' = commands (events w w')"

subsection \<open>A paper venue\<close>

text \<open>
  A small venue on which the engine can be run: its state is the list of open positions.
  When it accepts orders, an open request adds a position under a fresh ticket, a modify
  request writes the two levels and a close request removes the position; when it does
  not, every request is refused and nothing changes. Every symbol is visible, has \<open>dg\<close>
  digits and the same tick.
\<close>

definition paper_order_send ::
  "bool \<Rightarrow> request \<Rightarrow> TradePosition list \<Rightarrow> OrderSendResult option \<times> TradePosition list" where
  "paper_order_send accept req ps =
     (if \<not> accept then (None, ps)
      else
        (case req of
           Deal_open s t v p a b m c \<Rightarrow>
             (let tk = 1 + fold max (map ticket ps) 0
              in (Some \<lparr>retcode = TRADE_RETCODE_DONE, order_ticket = tk\<rparr>,
                  ps @ [\<lparr>ticket = tk, symbol = s, ptype = t, volume = v,
                         sl = (case a of None \<Rightarrow> 0 | Some x \<Rightarrow> x),
                         tp = (case b of None \<Rightarrow> 0 | Some x \<Rightarrow> x),
                         magic = m, comment = c\<rparr>]))
         | Sltp pos s a b \<Rightarrow>
             (Some \<lparr>retcode = TRADE_RETCODE_DONE, order_ticket = 0\<rparr>,
              map (\<lambda>q. if ticket q = pos then q\<lparr>sl := a, tp := b\<rparr> else q) ps)
         | Deal_close pos s v t p \<Rightarrow>
             (Some \<lparr>retcode = TRADE_RETCODE_DONE, order_ticket = 0\<rparr>,
              filter (\<lambda>q. ticket q \<noteq> pos) ps)))"

definition paper_venue :: "bool \<Rightarrow> int \<Rightarrow> TradePosition list gateway" where
  "paper_venue accept dg =
     \<lparr>positions_get = (\<lambda>v. (v, v)),
      positions_get_symbol = (\<lambda>s v. (filter (\<lambda>q. symbol q = s) v, v)),
      symbol_info = (\<lambda>s v. (Some \<lparr>digits = dg, visible = True\<rparr>, v)),
      symbol_info_tick = (\<lambda>s v. (Some \<lparr>ask = 11001 / 10000, bid = 11 / 10\<rparr>, v)),
      symbol_select = (\<lambda>s b v. (True, v)),
      order_send = paper_order_send accept,
      sleep = (\<lambda>t v. v)\<rparr>"

text \<open>A position with the fields given in this order: ticket, type, volume, sl, tp, magic, comment.\<close>

definition pos :: "int \<Rightarrow> int \<Rightarrow> real \<Rightarrow> real \<Rightarrow> real \<Rightarrow> int \<Rightarrow> string \<Rightarrow> TradePosition" where
  "pos tk ty v a b m c =
     \<lparr>ticket = tk, symbol = ''EURUSD'', ptype = ty, volume = v, sl = a, tp = b, magic = m, comment = c\<rparr>"



subsection \<open>Notions used in the statements\<close>

text \<open>The engine after lines 243-244 (and 214-215): \<open>k\<close> linked to \<open>r\<close> and recorded.\<close>

definition linked :: "engine \<Rightarrow> int \<Rightarrow> int \<Rightarrow> engine" where
  "linked st k r =
     st\<lparr>orig_to_rev := AList.update k r (orig_to_rev st), reversed_once := insert k (reversed_once st)\<rparr>"

text \<open>
  What \<^verbatim>\<open>normalize_price\<close> returns for a price when \<^verbatim>\<open>mt5.symbol_info\<close> answers \<open>info\<close>,
  what a modify request then carries for a desired level, and when a desired and a
  current level count as the same at lines 281-289.
\<close>

definition rounded :: "SymbolInfo option \<Rightarrow> real \<Rightarrow> real" where
  "rounded info x = (case info of None \<Rightarrow> x | Some i \<Rightarrow> py_round x (digits i))"

definition sent_level :: "SymbolInfo option \<Rightarrow> real option \<Rightarrow> real" where
  "sent_level info level = (case level of None \<Rightarrow> 0 | Some x \<Rightarrow> rounded info x)"

definition levels_agree :: "SymbolInfo option \<Rightarrow> real option \<Rightarrow> real option \<Rightarrow> bool" where
  "levels_agree info desired cur =
     (case desired of
        None \<Rightarrow> cur = None
      | Some d \<Rightarrow> (case cur of None \<Rightarrow> False | Some c \<Rightarrow> rounded info d = rounded info c))"

text \<open>
  The specification's words for the volume of a reverse: twice the original's volume,
  rounded to the instrument's accepted volume precision. \<open>volume_digits\<close> is the number of
  decimals of the instrument's volume step, which the source never reads.
\<close>

definition spec_reverse_volume :: "int \<Rightarrow> real \<Rightarrow> real" where
  "spec_reverse_volume volume_digits v = py_round (2 * v) volume_digits"



text \<open>
  The engine states a run can reach from \<open>initial_engine\<close>: the table has one entry per
  key, as a dict has, and every key of the table is in \<^verbatim>\<open>reversed_once\<close>.
\<close>

definition wf_engine :: "engine \<Rightarrow> bool" where
  "wf_engine st =
     (distinct (map fst (orig_to_rev st)) \<and> fst ` set (orig_to_rev st) \<subseteq> reversed_once st)"

section \<open>Lemmas\<close>

declare dec.simps [simp del]

subsection \<open>Decimal strings\<close>

lemma is_digit_digit_char: "d < 10 \<Longrightarrow> is_digit (digit_char d)"
  by (simp add: is_digit_def digit_char_def)

lemma digit_val_digit_char: "d < 10 \<Longrightarrow> digit_val (digit_char d) = d"
  by (simp add: digit_val_def digit_char_def)

lemma dec_not_empty: "dec n \<noteq> []"
  by (subst dec.simps) simp

lemma dec_digits: "c \<in> set (dec n) \<Longrightarrow> is_digit c"
proof (induction n arbitrary: c rule: dec.induct)
  case (1 n)
  show ?case
  proof (cases "n < 10")
    case True
    with "1.prems" show ?thesis
      by (subst (asm) dec.simps) (simp add: is_digit_digit_char)
  next
    case False
    with "1.prems" have "c \<in> set (dec (n div 10)) \<or> c = digit_char (n mod 10)"
      by (subst (asm) dec.simps) auto
    with False "1.IH" show ?thesis
      by (auto simp: is_digit_digit_char)
  qed
qed

lemma foldl_dec: "foldl (\<lambda>a c. 10 * a + digit_val c) 0 (dec n) = n"
proof (induction n rule: dec.induct)
  case (1 n)
  show ?case
  proof (cases "n < 10")
    case True
    then show ?thesis
      by (subst dec.simps) (simp add: digit_val_digit_char)
  next
    case False
    with "1.IH" show ?thesis
      by (subst dec.simps) (simp add: digit_val_digit_char)
  qed
qed

lemma int_of_digits_dec: "int_of_digits (dec n) = int n"
  by (simp add: int_of_digits_def foldl_dec)

lemma dec_all_digits: "\<forall>c\<in>set (dec n). is_digit c"
  by (simp add: dec_digits)

lemma takeWhile_dec: "takeWhile is_digit (dec n) = dec n"
  by (simp add: dec_digits)

lemma dropWhile_dec: "dropWhile is_digit (dec n) = []"
  by (simp add: dec_digits)

lemma parse_format:
  "0 \<le> n \<Longrightarrow> parse_original_ticket_from_comment (COMMENT_PREFIX @ str_int n) = Some n"
  by (simp add: parse_original_ticket_from_comment_def str_int_def Let_def COMMENT_PREFIX_def
      takeWhile_dec dropWhile_dec dec_not_empty int_of_digits_dec dec_all_digits)

lemma dec_inj: "dec m = dec n \<Longrightarrow> m = n"
  by (metis foldl_dec)

lemma hd_dec_digit: "is_digit (hd (dec n))"
  by (metis dec_digits dec_not_empty hd_in_set)

lemma minus_not_digit: "\<not> is_digit CHR ''-''"
  by (simp add: is_digit_def)

lemma str_int_inj: "str_int a = str_int b \<Longrightarrow> a = b"
proof -
  assume eq: "str_int a = str_int b"
  have neq: "CHR ''-'' # xs \<noteq> dec n" for xs n
    using hd_dec_digit [of n] minus_not_digit by (metis list.sel(1))
  show ?thesis
  proof (cases "a < 0")
    case True
    show ?thesis
    proof (cases "b < 0")
      case True
      with \<open>a < 0\<close> eq have "nat (- a) = nat (- b)"
        by (auto simp: str_int_def dest: dec_inj)
      with True \<open>a < 0\<close> show ?thesis by simp
    next
      case False
      with \<open>a < 0\<close> eq neq show ?thesis by (simp add: str_int_def)
    qed
  next
    case False
    show ?thesis
    proof (cases "b < 0")
      case True
      with False eq neq [of "dec (nat (- b))" "nat a"] show ?thesis by (simp add: str_int_def)
    next
      case b: False
      with False eq have "nat a = nat b"
        by (auto simp: str_int_def dest: dec_inj)
      with False b show ?thesis by simp
    qed
  qed
qed

subsection \<open>What each call adds to the log\<close>

lemma log_call [simp]: "snd (snd (call f w)) = snd w"
  by (simp add: call_def split: prod.splits)

lemma send_eq: "send g req w = (res, w') \<Longrightarrow> snd w' = snd w @ [Sent req res]"
  by (auto simp: send_def split: prod.splits)

lemma query_eq: "query g s w = (ps, w') \<Longrightarrow> snd w' = snd w @ [Listed s ps]"
  by (auto simp: query_def split: prod.splits)

lemma log_normalize_price [simp]: "snd (snd (normalize_price g s x w)) = snd w"
  by (simp add: normalize_price_def split: prod.splits option.splits)
    (metis log_call snd_conv)+

lemma log_price_from_tick [simp]: "snd (snd (price_from_tick g s t w)) = snd w"
  by (simp add: price_from_tick_def split: prod.splits option.splits)
    (metis log_call snd_conv)+

lemma log_ensure_symbol [simp]: "snd (snd (ensure_symbol g s w)) = snd w"
  by (simp add: ensure_symbol_def split: prod.splits option.splits)
    (metis log_call snd_conv)+

lemma log_normalize_if_set [simp]: "snd (snd (normalize_if_set g s x w)) = snd w"
  by (simp add: normalize_if_set_def split: prod.splits option.splits)
    (metis log_normalize_price snd_conv)

lemma log_normalize_or_zero [simp]: "snd (snd (normalize_or_zero g s x w)) = snd w"
  by (simp add: normalize_or_zero_def split: option.splits)

lemma log_level_differs [simp]: "snd (snd (level_differs g s d c w)) = snd w"
  by (simp add: level_differs_def split: prod.splits option.splits)
    (metis log_normalize_price snd_conv)

lemma events_same [simp]: "snd w' = snd w \<Longrightarrow> events w w' = []"
  by (simp add: events_def)

lemma events_append [simp]: "snd w' = snd w @ xs \<Longrightarrow> events w w' = xs"
  by (simp add: events_def)

lemma commands_append [simp]: "commands (xs @ ys) = commands xs @ commands ys"
  by (induction xs rule: commands.induct) simp_all

text \<open>
  \<^verbatim>\<open>send_market_order\<close> either sends nothing and returns \<^verbatim>\<open>None\<close>, or sends one open
  request with the arguments it was given; it returns a ticket exactly when the request
  is accepted.
\<close>

lemma send_market_order_cases:
  assumes "send_market_order g s t v a b c m w = (ord, w')"
  shows "(ord = None \<and> snd w' = snd w)
    \<or> (\<exists>pr a' b' res. snd w' = snd w @ [Sent (Deal_open s t v pr a' b' m c) res]
          \<and> (ord \<noteq> None) = accepted res)"
proof -
  obtain ok w1 where e: "ensure_symbol g s w = (ok, w1)" by (metis surj_pair)
  then have l1: "snd w1 = snd w" by (metis log_ensure_symbol snd_conv)
  obtain price w2 where p: "price_from_tick g s
      (if t = ORDER_TYPE_BUY then POSITION_TYPE_BUY else POSITION_TYPE_SELL) w1 = (price, w2)"
    by (metis surj_pair)
  then have l2: "snd w2 = snd w" using l1 by (metis log_price_from_tick snd_conv)
  obtain rsl w3 where n1: "normalize_if_set g s a w2 = (rsl, w3)" by (metis surj_pair)
  then have l3: "snd w3 = snd w" using l2 by (metis log_normalize_if_set snd_conv)
  obtain rtp w4 where n2: "normalize_if_set g s b w3 = (rtp, w4)" by (metis surj_pair)
  then have l4: "snd w4 = snd w" using l3 by (metis log_normalize_if_set snd_conv)
  show ?thesis
  proof (cases "ok \<and> price \<noteq> None")
    case False
    have "ord = None \<and> snd w' = snd w"
    proof (cases ok)
      case False
      with assms e l1 show ?thesis by (simp add: send_market_order_def)
    next
      case True
      with \<open>\<not> (ok \<and> price \<noteq> None)\<close> have "price = None" by simp
      with True assms e p l2 show ?thesis by (simp add: send_market_order_def)
    qed
    then show ?thesis by simp
  next
    case True
    then obtain pr where pr: "price = Some pr" by auto
    obtain res w5 where s: "send g (Deal_open s t v pr rsl rtp m c) w4 = (res, w5)"
      by (metis surj_pair)
    then have l5: "snd w5 = snd w @ [Sent (Deal_open s t v pr rsl rtp m c) res]"
      using l4 send_eq by fastforce
    have "w' = w5" "(ord \<noteq> None) = accepted res"
      using assms True e p pr n1 n2 s
      by (auto simp: send_market_order_def accepted_def split: option.splits if_splits)
    with l5 show ?thesis by auto
  qed
qed

lemma modify_position_sltp_log:
  "\<exists>a' b' res. snd (snd (modify_position_sltp g tk s a b w)) = snd w @ [Sent (Sltp tk s a' b') res]"
proof -
  obtain nsl w1 where n1: "normalize_or_zero g s a w = (nsl, w1)" by (metis surj_pair)
  then have l1: "snd w1 = snd w" by (metis log_normalize_or_zero snd_conv)
  obtain ntp w2 where n2: "normalize_or_zero g s b w1 = (ntp, w2)" by (metis surj_pair)
  then have l2: "snd w2 = snd w" using l1 by (metis log_normalize_or_zero snd_conv)
  obtain res w3 where s: "send g (Sltp tk s nsl ntp) w2 = (res, w3)" by (metis surj_pair)
  then have l3: "snd w3 = snd w @ [Sent (Sltp tk s nsl ntp) res]" using l2 send_eq by fastforce
  have "snd (snd (modify_position_sltp g tk s a b w)) = snd w3"
    using n1 n2 s by (simp add: modify_position_sltp_def split: option.splits)
  with l3 show ?thesis by auto
qed

lemma close_position_log:
  "\<exists>pr res. snd (snd (close_position g tk s v t w))
     = snd w @ [Sent (Deal_close tk s v
          (if t = POSITION_TYPE_BUY then ORDER_TYPE_SELL else ORDER_TYPE_BUY) pr) res]"
proof -
  let ?opp = "if t = POSITION_TYPE_BUY then ORDER_TYPE_SELL else ORDER_TYPE_BUY"
  obtain price w1 where p: "price_from_tick g s t w = (price, w1)" by (metis surj_pair)
  then have l1: "snd w1 = snd w" by (metis log_price_from_tick snd_conv)
  obtain res w2 where s: "send g (Deal_close tk s v ?opp price) w1 = (res, w2)"
    by (metis surj_pair)
  then have l2: "snd w2 = snd w @ [Sent (Deal_close tk s v ?opp price) res]"
    using l1 send_eq by fastforce
  have "snd (snd (close_position g tk s v t w)) = snd w2"
    using p s by (simp add: close_position_def Let_def split: option.splits)
  with l2 show ?thesis by auto
qed

subsection \<open>One original in the opening pass\<close>

lemma link_new_reverse_cases:
  "link_new_reverse op ps st = st \<or> (\<exists>r. link_new_reverse op ps st = linked st (ticket op) r)"
  by (auto simp: link_new_reverse_def linked_def split: option.splits)

lemma open_step_skip:
  "map_of (orig_to_rev st) (ticket op) \<noteq> None \<or> ticket op \<in> reversed_once st
   \<Longrightarrow> open_step g op (st, w) = (st, w)"
  by (auto simp: open_step_def)

text \<open>
  The body of the loop over the originals does one of three things: nothing to the
  engine and nothing sent (the original is linked or was reversed before, or its symbol or
  tick is missing); one open request that is not accepted, the engine as it was; one
  accepted open request followed by one listing of the symbol, the engine linked from
  that listing or, when the listing shows no reverse of this original, as it was.
\<close>

lemma open_step_cases:
  assumes "open_step g op (st, w) = (st', w')"
  shows "(st' = st \<and> snd w' = snd w)
    \<or> (ticket op \<notin> reversed_once st \<and> map_of (orig_to_rev st) (ticket op) = None
        \<and> (\<exists>pr a b res.
              (\<not> accepted res \<and> st' = st
               \<and> snd w' = snd w @ [Sent (Deal_open (symbol op) (reverse_type (ptype op))
                     (py_round (volume op * 2) 2) pr a b MAGIC
                     (COMMENT_PREFIX @ str_int (ticket op))) res])
            \<or> (accepted res
               \<and> (\<exists>ps. st' = link_new_reverse op ps st
                     \<and> snd w' = snd w @ [Sent (Deal_open (symbol op) (reverse_type (ptype op))
                           (py_round (volume op * 2) 2) pr a b MAGIC
                           (COMMENT_PREFIX @ str_int (ticket op))) res,
                         Listed (symbol op) ps]))))"
proof (cases "map_of (orig_to_rev st) (ticket op) \<noteq> None \<or> ticket op \<in> reversed_once st")
  case True
  with assms open_step_skip [OF True, of g w] show ?thesis by simp
next
  case False
  then have guard: "ticket op \<notin> reversed_once st" "map_of (orig_to_rev st) (ticket op) = None"
    by auto
  obtain ok w1 where e: "ensure_symbol g (symbol op) w = (ok, w1)" by (metis surj_pair)
  then have l1: "snd w1 = snd w" by (metis log_ensure_symbol snd_conv)
  obtain rsl rtp where d: "desired_sltp_for_reverse op = (rsl, rtp)" by (metis surj_pair)
  let ?cmt = "COMMENT_PREFIX @ str_int (ticket op)"
  let ?smo = "send_market_order g (symbol op) (reverse_type (ptype op))
      (py_round (volume op * 2) 2) rsl rtp ?cmt MAGIC w1"
  obtain ord w2 where s: "?smo = (ord, w2)" by (metis surj_pair)
  note smo = send_market_order_cases [OF s]
  show ?thesis
  proof (cases ok)
    case False
    with assms guard e have "st' = st" "w' = w1"
      by (auto simp: open_step_def)
    with l1 show ?thesis by simp
  next
    case True
    show ?thesis
    proof (cases ord)
      case None
      with assms guard e d s True have "st' = st" "w' = w2"
        by (auto simp: open_step_def Let_def)
      with smo None l1 guard show ?thesis by auto
    next
      case (Some x)
      obtain nps w3 where c: "query g (symbol op) (sleep g (2 / 10) (fst w2), snd w2) = (nps, w3)"
        by (metis surj_pair)
      then have l3: "snd w3 = snd w2 @ [Listed (symbol op) nps]"
        using query_eq by fastforce
      from assms guard e d s True Some c
      have res: "st' = link_new_reverse op nps st" "w' = w3"
        by (auto simp: open_step_def Let_def)
      from smo Some l1 obtain pr a b rs where
        "snd w2 = snd w @ [Sent (Deal_open (symbol op) (reverse_type (ptype op))
            (py_round (volume op * 2) 2) pr a b MAGIC ?cmt) rs]" "accepted rs"
        by auto
      with res l3 guard show ?thesis by auto
    qed
  qed
qed

subsection \<open>The rebuilt table\<close>

lemma rebuild_snoc: "rebuild (rs @ [r]) st = rebuild_step r (rebuild rs st)"
  by (simp add: rebuild_def)

lemma rebuild_step_reversed_once: "reversed_once st \<subseteq> reversed_once (rebuild_step rp st)"
  by (auto simp: rebuild_step_def split: option.splits)

lemma rebuild_reversed_once: "reversed_once st \<subseteq> reversed_once (rebuild rs st)"
proof (induction rs rule: rev_induct)
  case Nil
  show ?case by (simp add: rebuild_def)
next
  case (snoc r rs)
  with rebuild_step_reversed_once [of "rebuild rs st" r] show ?case
    by (auto simp: rebuild_snoc)
qed

text \<open>
  After the loop over the reverses the entry of a key is the ticket of the last reverse,
  in the order of the snapshot, whose comment parses to the key; a key that no comment
  names keeps the entry it had.
\<close>

lemma rebuild_map_of:
  "map_of (orig_to_rev (rebuild rs st)) k =
     (case find (\<lambda>rp. parse_original_ticket_from_comment (comment rp) = Some k) (rev rs) of
        None \<Rightarrow> map_of (orig_to_rev st) k
      | Some rp \<Rightarrow> Some (ticket rp))"
proof (induction rs rule: rev_induct)
  case Nil
  show ?case by (simp add: rebuild_def)
next
  case (snoc r rs)
  show ?case
  proof (cases "parse_original_ticket_from_comment (comment r)")
    case None
    with snoc show ?thesis by (simp add: rebuild_snoc rebuild_step_def)
  next
    case (Some j)
    with snoc show ?thesis
      by (simp add: rebuild_snoc rebuild_step_def update_conv')
  qed
qed

lemma rebuild_in_reversed_once:
  "find (\<lambda>rp. parse_original_ticket_from_comment (comment rp) = Some k) (rev rs) = Some rp
   \<Longrightarrow> k \<in> reversed_once (rebuild rs st)"
proof (induction rs rule: rev_induct)
  case Nil
  then show ?case by simp
next
  case (snoc r rs)
  show ?case
  proof (cases "parse_original_ticket_from_comment (comment r) = Some k")
    case True
    then show ?thesis by (simp add: rebuild_snoc rebuild_step_def)
  next
    case False
    with snoc have "k \<in> reversed_once (rebuild rs st)" by simp
    with rebuild_step_reversed_once [of "rebuild rs st" r] show ?thesis
      by (auto simp: rebuild_snoc)
  qed
qed

lemma keys_update: "fst ` set (AList.update k r al) = insert k (fst ` set al)"
  by (simp add: dom_update)

lemma keys_delete: "fst ` set (AList.delete k al) = fst ` set al - {k}"
proof -
  have "set (map fst (AList.delete k al)) = set (removeAll k (map fst al))"
    by (simp only: delete_keys)
  then show ?thesis by simp
qed

lemma wf_linked: "wf_engine st \<Longrightarrow> wf_engine (linked st k r)"
  unfolding wf_engine_def linked_def
  by (simp add: distinct_update keys_update) blast

lemma rebuild_step_linked:
  "rebuild_step rp st = st \<or> (\<exists>k. rebuild_step rp st = linked st k (ticket rp))"
  by (auto simp: rebuild_step_def linked_def split: option.splits)

lemma wf_rebuild: "wf_engine st \<Longrightarrow> wf_engine (rebuild rs st)"
proof (induction rs rule: rev_induct)
  case Nil
  then show ?case by (simp add: rebuild_def)
next
  case (snoc r rs)
  with rebuild_step_linked [of r "rebuild rs st"] show ?case
    by (auto simp: rebuild_snoc wf_linked)
qed

subsection \<open>One pair in the maintenance pass\<close>

lemma sync_sltp_log:
  "snd (sync_sltp g orig_pos rev_pos w) = snd w
   \<or> (\<exists>a b res. snd (sync_sltp g orig_pos rev_pos w)
         = snd w @ [Sent (Sltp (ticket rev_pos) (symbol rev_pos) a b) res])"
proof -
  obtain dsl dtp where d: "desired_sltp_for_reverse orig_pos = (dsl, dtp)" by (metis surj_pair)
  obtain x w1 where a: "level_differs g (symbol rev_pos) dsl (current_level (sl rev_pos)) w = (x, w1)"
    by (metis surj_pair)
  then have l1: "snd w1 = snd w" by (metis log_level_differs snd_conv)
  obtain y w2 where b: "level_differs g (symbol rev_pos) dtp (current_level (tp rev_pos)) w1 = (y, w2)"
    by (metis surj_pair)
  then have l2: "snd w2 = snd w" using l1 by (metis log_level_differs snd_conv)
  show ?thesis
  proof (cases "x \<or> y")
    case True
    with d a b have "sync_sltp g orig_pos rev_pos w
        = snd (modify_position_sltp g (ticket rev_pos) (symbol rev_pos) dsl dtp w2)"
      by (auto simp: sync_sltp_def)
    with modify_position_sltp_log [of g "ticket rev_pos" "symbol rev_pos" dsl dtp w2] l2
    show ?thesis by auto
  next
    case False
    with d a b have "sync_sltp g orig_pos rev_pos w = w2"
      by (auto simp: sync_sltp_def)
    with l2 show ?thesis by simp
  qed
qed

text \<open>
  The body of the loop over the tracked pairs. With the original gone it sends one close
  request for the reverse when the reverse is in the snapshot, nothing otherwise, and
  deletes the key whatever the answer. With the original there it deletes the key when
  the reverse is gone and sends nothing; with both there it leaves the engine alone and
  sends at most one modify request for the reverse.
\<close>

lemma sync_step_cases:
  assumes "sync_step g bt (k, r) (st, w) = (st', w')"
  shows "reversed_once st' = reversed_once st
    \<and> (case bt k of
          None \<Rightarrow>
            orig_to_rev st' = AList.delete k (orig_to_rev st)
            \<and> (case bt r of
                  None \<Rightarrow> snd w' = snd w
                | Some rp \<Rightarrow>
                    (\<exists>pr res. snd w' = snd w @ [Sent (Deal_close (ticket rp) (symbol rp) (volume rp)
                        (if ptype rp = POSITION_TYPE_BUY then ORDER_TYPE_SELL else ORDER_TYPE_BUY) pr)
                        res]))
        | Some op \<Rightarrow>
            (case bt r of
               None \<Rightarrow> orig_to_rev st' = AList.delete k (orig_to_rev st) \<and> snd w' = snd w
             | Some rp \<Rightarrow> st' = st \<and> w' = sync_sltp g op rp w))"
proof (cases "bt k")
  case None
  show ?thesis
  proof (cases "bt r")
    case n: None
    with None assms show ?thesis by (auto simp: sync_step_def)
  next
    case (Some rp)
    with None assms
    have "st' = st\<lparr>orig_to_rev := AList.delete k (orig_to_rev st)\<rparr>"
      "w' = snd (close_position g (ticket rp) (symbol rp) (volume rp) (ptype rp) w)"
      by (auto simp: sync_step_def)
    with None Some close_position_log [of g "ticket rp" "symbol rp" "volume rp" "ptype rp" w]
    show ?thesis by auto
  qed
next
  case (Some op)
  with assms show ?thesis by (auto simp: sync_step_def split: option.splits)
qed

subsection \<open>The opening pass\<close>

lemma linked_reversed_once [simp]: "reversed_once (linked st k r) = insert k (reversed_once st)"
  by (simp add: linked_def)

lemma linked_map_of [simp]: "map_of (orig_to_rev (linked st k r)) = (map_of (orig_to_rev st))(k \<mapsto> r)"
  by (simp add: linked_def update_conv')

lemma open_step_state:
  assumes "open_step g op (st, w) = (st', w')"
  shows "st' = st
    \<or> (ticket op \<notin> reversed_once st \<and> map_of (orig_to_rev st) (ticket op) = None
        \<and> (\<exists>r. st' = linked st (ticket op) r))"
  using open_step_cases [OF assms] link_new_reverse_cases [of op _ st] by metis

lemma open_step_reversed_once:
  "open_step g op (st, w) = (st', w') \<Longrightarrow> reversed_once st \<subseteq> reversed_once st'"
  using open_step_state [of g op st w st' w'] by auto

lemma open_step_keeps:
  "open_step g op (st, w) = (st', w') \<Longrightarrow> map_of (orig_to_rev st) k = Some r
   \<Longrightarrow> map_of (orig_to_rev st') k = Some r"
  using open_step_state [of g op st w st' w'] by auto

lemma open_step_wf:
  "open_step g op (st, w) = (st', w') \<Longrightarrow> wf_engine st \<Longrightarrow> wf_engine st'"
  using open_step_state [of g op st w st' w'] by (auto simp: wf_linked)

lemma open_step_events:
  assumes "open_step g op (st, w) = (st', w')"
  shows "\<exists>evs. snd w' = snd w @ evs
    \<and> (\<forall>req \<in> set (commands evs).
          ticket op \<notin> reversed_once st \<and> map_of (orig_to_rev st) (ticket op) = None
          \<and> (\<exists>pr a b. req = Deal_open (symbol op) (reverse_type (ptype op))
                (py_round (volume op * 2) 2) pr a b MAGIC (COMMENT_PREFIX @ str_int (ticket op))))"
  using open_step_cases [OF assms] by (elim disjE conjE exE) auto

lemma open_fold_state:
  assumes "fold (open_step g) ops (st, w) = (st', w')"
  shows "reversed_once st \<subseteq> reversed_once st'
    \<and> (\<forall>k r. map_of (orig_to_rev st) k = Some r \<longrightarrow> map_of (orig_to_rev st') k = Some r)
    \<and> (wf_engine st \<longrightarrow> wf_engine st')"
  using assms
proof (induction ops arbitrary: st w)
  case Nil
  then show ?case by simp
next
  case (Cons a ops)
  obtain st1 w1 where s: "open_step g a (st, w) = (st1, w1)" by (metis surj_pair)
  with Cons.prems have f: "fold (open_step g) ops (st1, w1) = (st', w')" by simp
  from Cons.IH [OF f] open_step_reversed_once [OF s] open_step_keeps [OF s] open_step_wf [OF s]
  show ?case by blast
qed

text \<open>
  Every request of the opening pass is an open request for one of the originals, with
  twice its volume rounded to two decimals, the opposite side and the annotation of its
  ticket; that original was neither recorded nor linked when the pass began.
\<close>

lemma open_fold_events:
  assumes "fold (open_step g) ops (st, w) = (st', w')"
  shows "\<exists>evs. snd w' = snd w @ evs
    \<and> (\<forall>req \<in> set (commands evs). \<exists>op \<in> set ops.
          ticket op \<notin> reversed_once st \<and> map_of (orig_to_rev st) (ticket op) = None
          \<and> (\<exists>pr a b. req = Deal_open (symbol op) (reverse_type (ptype op))
                (py_round (volume op * 2) 2) pr a b MAGIC (COMMENT_PREFIX @ str_int (ticket op))))"
  using assms
proof (induction ops arbitrary: st w)
  case Nil
  then show ?case by simp
next
  case (Cons a ops)
  obtain st1 w1 where s: "open_step g a (st, w) = (st1, w1)" by (metis surj_pair)
  with Cons.prems have f: "fold (open_step g) ops (st1, w1) = (st', w')" by simp
  from open_step_events [OF s] obtain e1 where e1: "snd w1 = snd w @ e1"
    "\<forall>req \<in> set (commands e1).
          ticket a \<notin> reversed_once st \<and> map_of (orig_to_rev st) (ticket a) = None
          \<and> (\<exists>pr x y. req = Deal_open (symbol a) (reverse_type (ptype a))
                (py_round (volume a * 2) 2) pr x y MAGIC (COMMENT_PREFIX @ str_int (ticket a)))"
    by blast
  from Cons.IH [OF f] obtain e2 where e2: "snd w' = snd w1 @ e2"
    "\<forall>req \<in> set (commands e2). \<exists>op \<in> set ops.
          ticket op \<notin> reversed_once st1 \<and> map_of (orig_to_rev st1) (ticket op) = None
          \<and> (\<exists>pr x y. req = Deal_open (symbol op) (reverse_type (ptype op))
                (py_round (volume op * 2) 2) pr x y MAGIC (COMMENT_PREFIX @ str_int (ticket op)))"
    by blast
  have earlier: "ticket q \<notin> reversed_once st \<and> map_of (orig_to_rev st) (ticket q) = None"
    if "ticket q \<notin> reversed_once st1" "map_of (orig_to_rev st1) (ticket q) = None" for q
    using that open_step_reversed_once [OF s] open_step_keeps [OF s, of "ticket q"]
    by (cases "map_of (orig_to_rev st) (ticket q)") auto
  have "snd w' = snd w @ (e1 @ e2)" using e1 e2 by simp
  moreover have "\<forall>req \<in> set (commands (e1 @ e2)). \<exists>op \<in> set (a # ops).
          ticket op \<notin> reversed_once st \<and> map_of (orig_to_rev st) (ticket op) = None
          \<and> (\<exists>pr x y. req = Deal_open (symbol op) (reverse_type (ptype op))
                (py_round (volume op * 2) 2) pr x y MAGIC (COMMENT_PREFIX @ str_int (ticket op)))"
  proof
    fix req assume "req \<in> set (commands (e1 @ e2))"
    then consider "req \<in> set (commands e1)" | "req \<in> set (commands e2)" by auto
    then show "\<exists>op \<in> set (a # ops).
          ticket op \<notin> reversed_once st \<and> map_of (orig_to_rev st) (ticket op) = None
          \<and> (\<exists>pr x y. req = Deal_open (symbol op) (reverse_type (ptype op))
                (py_round (volume op * 2) 2) pr x y MAGIC (COMMENT_PREFIX @ str_int (ticket op)))"
    proof cases
      case 1
      with e1(2) show ?thesis by auto
    next
      case 2
      with e2(2) obtain op where "op \<in> set ops" "ticket op \<notin> reversed_once st1"
        "map_of (orig_to_rev st1) (ticket op) = None"
        "\<exists>pr x y. req = Deal_open (symbol op) (reverse_type (ptype op))
                (py_round (volume op * 2) 2) pr x y MAGIC (COMMENT_PREFIX @ str_int (ticket op))"
        by blast
      with earlier [of op] show ?thesis by auto
    qed
  qed
  ultimately show ?case by blast
qed

subsection \<open>The maintenance pass\<close>

lemma sync_step_state:
  assumes "sync_step g bt (k, r) (st, w) = (st', w')"
  shows "reversed_once st' = reversed_once st
    \<and> (orig_to_rev st' = orig_to_rev st \<or> orig_to_rev st' = AList.delete k (orig_to_rev st))"
  using sync_step_cases [OF assms] by (auto split: option.splits)

lemma sync_step_events:
  assumes "sync_step g bt (k, r) (st, w) = (st', w')"
  shows "\<exists>evs. snd w' = snd w @ evs \<and> (\<forall>req \<in> set (commands evs). \<not> is_open req)"
proof (cases "bt k")
  case None
  with sync_step_cases [OF assms] show ?thesis
    by (cases "bt r") auto
next
  case (Some op)
  show ?thesis
  proof (cases "bt r")
    case None
    with Some sync_step_cases [OF assms] show ?thesis by auto
  next
    case (Some rp)
    with \<open>bt k = Some op\<close> sync_step_cases [OF assms] have "w' = sync_sltp g op rp w" by simp
    with sync_sltp_log [of g op rp w] show ?thesis by auto
  qed
qed

lemma map_of_delete_None: "map_of al k = None \<Longrightarrow> map_of (AList.delete j al) k = None"
  by (simp add: delete_conv')

lemma sync_fold_state:
  assumes "fold (sync_step g bt) items (st, w) = (st', w')"
  shows "reversed_once st' = reversed_once st
    \<and> (\<forall>k. map_of (orig_to_rev st) k = None \<longrightarrow> map_of (orig_to_rev st') k = None)
    \<and> (wf_engine st \<longrightarrow> wf_engine st')
    \<and> (\<exists>evs. snd w' = snd w @ evs \<and> (\<forall>req \<in> set (commands evs). \<not> is_open req))"
  using assms
proof (induction items arbitrary: st w)
  case Nil
  then show ?case by simp
next
  case (Cons a items)
  obtain k r where a: "a = (k, r)" by (metis surj_pair)
  obtain st1 w1 where s: "sync_step g bt (k, r) (st, w) = (st1, w1)" by (metis surj_pair)
  with Cons.prems a have f: "fold (sync_step g bt) items (st1, w1) = (st', w')" by simp
  note st = sync_step_state [OF s]
  have n1: "map_of (orig_to_rev st1) j = None" if "map_of (orig_to_rev st) j = None" for j
    using st that by (auto simp: map_of_delete_None)
  have wf1: "wf_engine st1" if "wf_engine st"
  proof -
    from st have "distinct (map fst (orig_to_rev st)) \<longrightarrow> distinct (map fst (orig_to_rev st1))"
      by (auto simp: distinct_delete)
    moreover from st have "fst ` set (orig_to_rev st1) \<subseteq> fst ` set (orig_to_rev st)"
      by (elim conjE disjE) (simp_all add: dom_delete_subset)
    ultimately show ?thesis using that st unfolding wf_engine_def by (metis subset_trans)
  qed
  from sync_step_events [OF s] obtain e1 where
    e1: "snd w1 = snd w @ e1" "\<forall>req \<in> set (commands e1). \<not> is_open req" by blast
  from Cons.IH [OF f] obtain e2 where
    ih: "reversed_once st' = reversed_once st1"
      "\<forall>k. map_of (orig_to_rev st1) k = None \<longrightarrow> map_of (orig_to_rev st') k = None"
      "wf_engine st1 \<longrightarrow> wf_engine st'"
      "snd w' = snd w1 @ e2" "\<forall>req \<in> set (commands e2). \<not> is_open req"
    by blast
  have "snd w' = snd w @ (e1 @ e2)" using e1 ih by simp
  moreover have "\<forall>req \<in> set (commands (e1 @ e2)). \<not> is_open req" using e1 ih by auto
  ultimately show ?case using st ih n1 wf1 by blast
qed

subsection \<open>A cycle, taken apart\<close>

lemma cycle_parts:
  assumes "cycle g (st, w) = (st', w')"
  obtains ps w1 st2 w2 qs w3 w4 where
    "positions_get g (fst w) = (ps, fst w1)" and "snd w1 = snd w"
    and "fold (open_step g) (fst (classify ps)) (rebuild (snd (classify ps)) st, w1) = (st2, w2)"
    and "positions_get g (fst w2) = (qs, fst w3)" and "snd w3 = snd w2"
    and "fold (sync_step g (pos_by_ticket qs)) (orig_to_rev st2) (st2, w3) = (st', w4)"
    and "snd w' = snd w4" and "fst w' = sleep g POLL_SECONDS (fst w4)"
proof -
  obtain ps v1 where p: "positions_get g (fst w) = (ps, v1)" by (metis surj_pair)
  define w1 where "w1 = (v1, snd w)"
  obtain st2 w2 where a: "fold (open_step g) (fst (classify ps)) (rebuild (snd (classify ps)) st, w1)
      = (st2, w2)" by (metis surj_pair)
  have pa: "pass_a g (st, w) = (st2, w2)"
    using p a by (cases "classify ps") (simp add: pass_a_def call_def w1_def)
  obtain qs v3 where q: "positions_get g (fst w2) = (qs, v3)" by (metis surj_pair)
  define w3 where "w3 = (v3, snd w2)"
  obtain st3 w4 where b: "fold (sync_step g (pos_by_ticket qs)) (orig_to_rev st2) (st2, w3)
      = (st3, w4)" by (metis surj_pair)
  have pb: "pass_b g (st2, w2) = (st3, w4)"
    using q b by (simp add: pass_b_def call_def w3_def)
  from assms pa pb have "st' = st3" "w' = (sleep g POLL_SECONDS (fst w4), snd w4)"
    by (auto simp: cycle_def)
  with that [of ps w1 st2 w2 qs w3 w4] p a q b show thesis
    by (simp add: w1_def w3_def)
qed

text \<open>
  What a cycle does to \<^verbatim>\<open>reversed_once\<close> and which requests it sends: the set only
  grows, and an open request is never for a ticket the set held when the cycle began.
\<close>

lemma is_open_for_Deal_open:
  "is_open_for k (Deal_open s t v p a b m (COMMENT_PREFIX @ str_int j)) = (j = k)"
  by (auto dest: str_int_inj)

lemma not_open_not_open_for: "\<not> is_open req \<Longrightarrow> \<not> is_open_for k req"
  by (cases req) auto

lemma cycle_reversed_once:
  assumes "cycle g (st, w) = (st', w')"
  shows "reversed_once st \<subseteq> reversed_once st'
    \<and> (\<exists>evs. snd w' = snd w @ evs
          \<and> (\<forall>req \<in> set (commands evs). \<forall>k \<in> reversed_once st. \<not> is_open_for k req))"
proof -
  from assms obtain ps w1 st2 w2 qs w3 w4 where
    p: "snd w1 = snd w"
    and a: "fold (open_step g) (fst (classify ps)) (rebuild (snd (classify ps)) st, w1) = (st2, w2)"
    and q: "snd w3 = snd w2"
    and b: "fold (sync_step g (pos_by_ticket qs)) (orig_to_rev st2) (st2, w3) = (st', w4)"
    and e: "snd w' = snd w4"
    by (rule cycle_parts)
  let ?st1 = "rebuild (snd (classify ps)) st"
  have r1: "reversed_once st \<subseteq> reversed_once ?st1" by (rule rebuild_reversed_once)
  from open_fold_state [OF a] have r2: "reversed_once ?st1 \<subseteq> reversed_once st2" by simp
  from sync_fold_state [OF b] obtain e2 where
    r3: "reversed_once st' = reversed_once st2"
    and l2: "snd w4 = snd w3 @ e2" "\<forall>req \<in> set (commands e2). \<not> is_open req" by blast
  from open_fold_events [OF a] obtain e1 where
    l1: "snd w2 = snd w1 @ e1"
    and c1: "\<forall>req \<in> set (commands e1). \<exists>op \<in> set (fst (classify ps)).
          ticket op \<notin> reversed_once ?st1 \<and> map_of (orig_to_rev ?st1) (ticket op) = None
          \<and> (\<exists>pr a b. req = Deal_open (symbol op) (reverse_type (ptype op))
                (py_round (volume op * 2) 2) pr a b MAGIC (COMMENT_PREFIX @ str_int (ticket op)))"
    by blast
  have "\<not> is_open_for k req" if "req \<in> set (commands (e1 @ e2))" "k \<in> reversed_once st" for req k
  proof -
    from that(1) consider "req \<in> set (commands e1)" | "req \<in> set (commands e2)" by auto
    then show ?thesis
    proof cases
      case 1
      with c1 have "\<exists>op \<in> set (fst (classify ps)).
          ticket op \<notin> reversed_once ?st1 \<and> map_of (orig_to_rev ?st1) (ticket op) = None
          \<and> (\<exists>pr a b. req = Deal_open (symbol op) (reverse_type (ptype op))
                (py_round (volume op * 2) 2) pr a b MAGIC (COMMENT_PREFIX @ str_int (ticket op)))"
        by (rule bspec)
      then obtain q where "q \<in> set (fst (classify ps))"
        "ticket q \<notin> reversed_once ?st1 \<and> map_of (orig_to_rev ?st1) (ticket q) = None
          \<and> (\<exists>pr a b. req = Deal_open (symbol q) (reverse_type (ptype q))
                (py_round (volume q * 2) 2) pr a b MAGIC (COMMENT_PREFIX @ str_int (ticket q)))" ..
      note q = this
      show ?thesis
      proof
        assume "is_open_for k req"
        with q(2) have "str_int (ticket q) = str_int k" by auto
        then have "ticket q = k" by (rule str_int_inj)
        with q(2) that(2) r1 show False by auto
      qed
    next
      case 2
      with l2 show ?thesis by (simp add: not_open_not_open_for)
    qed
  qed
  moreover have "snd w' = snd w @ (e1 @ e2)" using p q e l1 l2 by simp
  ultimately show ?thesis using r1 r2 r3 by blast
qed

lemma cycles_reversed_once:
  assumes "cycles g n (st, w) = (st', w')"
  shows "reversed_once st \<subseteq> reversed_once st'
    \<and> (\<exists>evs. snd w' = snd w @ evs
          \<and> (\<forall>req \<in> set (commands evs). \<forall>k \<in> reversed_once st. \<not> is_open_for k req))"
  using assms
proof (induction n arbitrary: st w)
  case 0
  then show ?case by simp
next
  case (Suc n)
  obtain st1 w1 where c: "cycle g (st, w) = (st1, w1)" by (metis surj_pair)
  with Suc.prems have r: "cycles g n (st1, w1) = (st', w')" by simp
  from cycle_reversed_once [OF c] obtain e1 where
    s1: "reversed_once st \<subseteq> reversed_once st1" "snd w1 = snd w @ e1"
      "\<forall>req \<in> set (commands e1). \<forall>k \<in> reversed_once st. \<not> is_open_for k req" by blast
  from Suc.IH [OF r] obtain e2 where
    s2: "reversed_once st1 \<subseteq> reversed_once st'" "snd w' = snd w1 @ e2"
      "\<forall>req \<in> set (commands e2). \<forall>k \<in> reversed_once st1. \<not> is_open_for k req" by blast
  have "snd w' = snd w @ (e1 @ e2)" using s1 s2 by simp
  moreover have "\<forall>req \<in> set (commands (e1 @ e2)). \<forall>k \<in> reversed_once st. \<not> is_open_for k req"
    using s1 s2 by auto
  ultimately show ?case using s1 s2 by blast
qed

text \<open>
  C1. Once a ticket is in \<^verbatim>\<open>reversed_once\<close>, no later turn of the loop sends an open
  request for it, whatever the venue does in between (also when the reverse has closed
  by itself), and the set never loses an element: after any number of turns it contains
  the set it started from.
\<close>

theorem reversed_once_never_reopened:
  assumes "k \<in> reversed_once st" and "cycles g n (st, w) = (st', w')"
  shows "reversed_once st \<subseteq> reversed_once st'
    \<and> k \<in> reversed_once st'
    \<and> (\<forall>req \<in> set (issued w w'). \<not> is_open_for k req)"
proof -
  from cycles_reversed_once [OF assms(2)] obtain evs where
    "reversed_once st \<subseteq> reversed_once st'" "snd w' = snd w @ evs"
    "\<forall>req \<in> set (commands evs). \<forall>k \<in> reversed_once st. \<not> is_open_for k req" by blast
  with assms(1) show ?thesis by (auto simp: issued_def)
qed

theorem reversed_once_never_reopened_witness:
  "100 \<in> reversed_once \<lparr>orig_to_rev = [], reversed_once = {100}\<rparr>
   \<and> cycles (paper_venue True 4) 2
        (\<lparr>orig_to_rev = [], reversed_once = {100}\<rparr>,
         ([pos 100 POSITION_TYPE_BUY 1 (1095 / 1000) (1105 / 1000) 0 ''''], []))
       = (\<lparr>orig_to_rev = [], reversed_once = {100}\<rparr>,
          ([pos 100 POSITION_TYPE_BUY 1 (1095 / 1000) (1105 / 1000) 0 ''''], []))
   \<and> issued ([pos 100 POSITION_TYPE_BUY 1 (1095 / 1000) (1105 / 1000) 0 ''''], [])
        ([pos 100 POSITION_TYPE_BUY 1 (1095 / 1000) (1105 / 1000) 0 ''''], []) = []"
proof -
  let ?st = "\<lparr>orig_to_rev = [], reversed_once = {100}\<rparr>"
  let ?w = "([pos 100 POSITION_TYPE_BUY 1 (1095 / 1000) (1105 / 1000) 0 ''''], []) :: TradePosition list world"
  have h: "100 \<in> reversed_once ?st" by simp
  have c: "cycles (paper_venue True 4) 2 (?st, ?w) = (?st, ?w)" by code_simp
  from reversed_once_never_reopened [OF h c] have "100 \<in> reversed_once ?st" by simp
  with c show ?thesis by (simp add: issued_def events_def)
qed

subsection \<open>What is sent for an original\<close>

lemma cycle_open_requests:
  assumes "cycle g (st, w) = (st', w')" and "req \<in> set (issued w w')" and "is_open req"
  shows "\<exists>op \<in> set (fst (classify (fst (positions_get g (fst w))))).
      \<exists>pr a b. req = Deal_open (symbol op) (reverse_type (ptype op))
        (py_round (volume op * 2) 2) pr a b MAGIC (COMMENT_PREFIX @ str_int (ticket op))"
proof -
  from assms(1) obtain ps w1 st2 w2 qs w3 w4 where
    g: "positions_get g (fst w) = (ps, fst w1)" and p: "snd w1 = snd w"
    and a: "fold (open_step g) (fst (classify ps)) (rebuild (snd (classify ps)) st, w1) = (st2, w2)"
    and q: "snd w3 = snd w2"
    and b: "fold (sync_step g (pos_by_ticket qs)) (orig_to_rev st2) (st2, w3) = (st', w4)"
    and e: "snd w' = snd w4"
    by (rule cycle_parts)
  let ?st1 = "rebuild (snd (classify ps)) st"
  from sync_fold_state [OF b] obtain e2 where
    l2: "snd w4 = snd w3 @ e2" "\<forall>req \<in> set (commands e2). \<not> is_open req" by blast
  from open_fold_events [OF a] obtain e1 where
    l1: "snd w2 = snd w1 @ e1"
    and c1: "\<forall>req \<in> set (commands e1). \<exists>op \<in> set (fst (classify ps)).
          ticket op \<notin> reversed_once ?st1 \<and> map_of (orig_to_rev ?st1) (ticket op) = None
          \<and> (\<exists>pr a b. req = Deal_open (symbol op) (reverse_type (ptype op))
                (py_round (volume op * 2) 2) pr a b MAGIC (COMMENT_PREFIX @ str_int (ticket op)))"
    by blast
  have "snd w' = snd w @ (e1 @ e2)" using p q e l1 l2 by simp
  then have "issued w w' = commands e1 @ commands e2" by (simp add: issued_def)
  with assms(2,3) l2(2) have "req \<in> set (commands e1)" by auto
  with c1 have "\<exists>op \<in> set (fst (classify ps)).
          ticket op \<notin> reversed_once ?st1 \<and> map_of (orig_to_rev ?st1) (ticket op) = None
          \<and> (\<exists>pr a b. req = Deal_open (symbol op) (reverse_type (ptype op))
                (py_round (volume op * 2) 2) pr a b MAGIC (COMMENT_PREFIX @ str_int (ticket op)))"
    by (rule bspec)
  then obtain x where x: "x \<in> set (fst (classify ps))"
    "ticket x \<notin> reversed_once ?st1 \<and> map_of (orig_to_rev ?st1) (ticket x) = None
          \<and> (\<exists>pr a b. req = Deal_open (symbol x) (reverse_type (ptype x))
                (py_round (volume x * 2) 2) pr a b MAGIC (COMMENT_PREFIX @ str_int (ticket x)))" ..
  from g have "fst (positions_get g (fst w)) = ps" by simp
  with x show ?thesis by auto
qed

text \<open>
  C6, as the code has it. Every open request that a cycle sends is for an original of
  the cycle's snapshot; its volume is twice the original's volume rounded to two decimals
  (the constant 2 of line 229, whatever the instrument), and its side is the opposite
  one: sell for a buy position, buy for a sell position.
\<close>

theorem reverse_order_volume_and_side:
  assumes "cycle g (st, w) = (st', w')" and "req \<in> set (issued w w')" and "is_open req"
  shows "\<exists>op \<in> set (fst (classify (fst (positions_get g (fst w))))).
      \<exists>pr a b. req = Deal_open (symbol op) (reverse_type (ptype op))
          (py_round (volume op * 2) 2) pr a b MAGIC (COMMENT_PREFIX @ str_int (ticket op))
        \<and> (ptype op = POSITION_TYPE_BUY \<longrightarrow> reverse_type (ptype op) = ORDER_TYPE_SELL)
        \<and> (ptype op = POSITION_TYPE_SELL \<longrightarrow> reverse_type (ptype op) = ORDER_TYPE_BUY)"
proof -
  have "(t = POSITION_TYPE_BUY \<longrightarrow> reverse_type t = ORDER_TYPE_SELL)
      \<and> (t = POSITION_TYPE_SELL \<longrightarrow> reverse_type t = ORDER_TYPE_BUY)" for t
    by (simp add: reverse_type_def POSITION_TYPE_BUY_def POSITION_TYPE_SELL_def)
  with cycle_open_requests [OF assms] show ?thesis by auto
qed

theorem reverse_order_volume_and_side_witness:
  "Deal_open ''EURUSD'' ORDER_TYPE_SELL 2 (11 / 10) None None MAGIC ''REV of 100''
     \<in> set (issued ([pos 100 POSITION_TYPE_BUY 1 0 0 0 ''''], [])
          (snd (cycle (paper_venue True 4)
             (initial_engine, ([pos 100 POSITION_TYPE_BUY 1 0 0 0 ''''], [])))))
   \<and> is_open (Deal_open ''EURUSD'' ORDER_TYPE_SELL 2 (11 / 10) None None MAGIC ''REV of 100'')
   \<and> (\<exists>op \<in> set (fst (classify (fst (positions_get (paper_venue True 4)
            (fst ([pos 100 POSITION_TYPE_BUY 1 0 0 0 ''''], [] :: event list)))))).
        reverse_type (ptype op) = ORDER_TYPE_SELL \<and> py_round (volume op * 2) 2 = 2)"
proof -
  let ?w = "([pos 100 POSITION_TYPE_BUY 1 0 0 0 ''''], []) :: TradePosition list world"
  let ?g = "paper_venue True 4"
  let ?req = "Deal_open ''EURUSD'' ORDER_TYPE_SELL 2 (11 / 10) None None MAGIC ''REV of 100''"
  have c: "cycle ?g (initial_engine, ?w)
      = (fst (cycle ?g (initial_engine, ?w)), snd (cycle ?g (initial_engine, ?w)))" by simp
  have i: "?req \<in> set (issued ?w (snd (cycle ?g (initial_engine, ?w))))" by code_simp
  have o: "is_open ?req" by simp
  have v: "\<exists>op \<in> set (fst (classify (fst (positions_get ?g (fst ?w))))).
        reverse_type (ptype op) = ORDER_TYPE_SELL \<and> py_round (volume op * 2) 2 = 2"
    by code_simp
  from reverse_order_volume_and_side [OF c i o] i o v show ?thesis
    by - (intro conjI, assumption+)
qed

text \<open>
  C6, as the specification states it, fails for an instrument whose volume step is 0.001:
  for an original of volume 0.001 the specification asks for 0.002, and the request
  carries 0.
\<close>

theorem reverse_volume_counterexample:
  "issued ([pos 100 POSITION_TYPE_BUY (1 / 1000) 0 0 0 ''''], [])
      (snd (cycle (paper_venue True 4)
         (initial_engine, ([pos 100 POSITION_TYPE_BUY (1 / 1000) 0 0 0 ''''], []))))
     = [Deal_open ''EURUSD'' ORDER_TYPE_SELL 0 (11 / 10) None None MAGIC ''REV of 100'']
   \<and> spec_reverse_volume 3 (1 / 1000) = 2 / 1000"
  by code_simp

subsection \<open>Two reverses of one original\<close>

lemma pass_a_eq:
  "pass_a g (st, w) =
     fold (open_step g) (fst (classify (fst (positions_get g (fst w)))))
       (rebuild (snd (classify (fst (positions_get g (fst w))))) st,
        (snd (positions_get g (fst w)), snd w))"
proof -
  obtain ps v1 where p: "positions_get g (fst w) = (ps, v1)" by (metis surj_pair)
  obtain xs ys where c: "classify ps = (xs, ys)" by (metis surj_pair)
  from p c show ?thesis by (simp add: pass_a_def call_def)
qed

text \<open>
  C7, as the code has it. The loop of lines 210-215 does not look for duplicates: when
  several reverses of the snapshot carry an annotation that parses to the same original,
  each overwrites the entry of the one before, so the table that the opening and the
  maintenance pass work with links the original to the last of them in the order of the
  snapshot (and the original is recorded as reversed). The earlier ones are not linked.
\<close>

theorem last_reverse_of_an_original_is_linked:
  assumes "find (\<lambda>rp. parse_original_ticket_from_comment (comment rp) = Some k)
             (rev (snd (classify (fst (positions_get g (fst w)))))) = Some rp"
  shows "map_of (orig_to_rev (fst (pass_a g (st, w)))) k = Some (ticket rp)
    \<and> k \<in> reversed_once (fst (pass_a g (st, w)))"
proof -
  let ?ps = "fst (positions_get g (fst w))"
  let ?st1 = "rebuild (snd (classify ?ps)) st"
  obtain st2 w2 where a: "fold (open_step g) (fst (classify ?ps))
      (?st1, (snd (positions_get g (fst w)), snd w)) = (st2, w2)" by (metis surj_pair)
  then have pa: "pass_a g (st, w) = (st2, w2)" by (simp add: pass_a_eq)
  from assms have "map_of (orig_to_rev ?st1) k = Some (ticket rp)"
    by (simp add: rebuild_map_of)
  moreover from assms have "k \<in> reversed_once ?st1" by (rule rebuild_in_reversed_once)
  ultimately show ?thesis using open_fold_state [OF a] pa by auto
qed

theorem last_reverse_of_an_original_is_linked_witness:
  "find (\<lambda>rp. parse_original_ticket_from_comment (comment rp) = Some 100)
     (rev (snd (classify (fst (positions_get (paper_venue True 4)
        (fst ([pos 100 POSITION_TYPE_BUY 1 (1095 / 1000) (1105 / 1000) 0 '''',
               pos 11 ORDER_TYPE_SELL 2 0 0 MAGIC ''REV of 100'',
               pos 12 ORDER_TYPE_SELL 2 0 0 MAGIC ''REV of 100''], [] :: event list)))))))
     = Some (pos 12 ORDER_TYPE_SELL 2 0 0 MAGIC ''REV of 100'')
   \<and> map_of (orig_to_rev (fst (pass_a (paper_venue True 4)
        (initial_engine,
         ([pos 100 POSITION_TYPE_BUY 1 (1095 / 1000) (1105 / 1000) 0 '''',
           pos 11 ORDER_TYPE_SELL 2 0 0 MAGIC ''REV of 100'',
           pos 12 ORDER_TYPE_SELL 2 0 0 MAGIC ''REV of 100''], []))))) 100
     = Some 12"
proof -
  let ?w = "([pos 100 POSITION_TYPE_BUY 1 (1095 / 1000) (1105 / 1000) 0 '''',
           pos 11 ORDER_TYPE_SELL 2 0 0 MAGIC ''REV of 100'',
           pos 12 ORDER_TYPE_SELL 2 0 0 MAGIC ''REV of 100''], []) :: TradePosition list world"
  have h: "find (\<lambda>rp. parse_original_ticket_from_comment (comment rp) = Some 100)
     (rev (snd (classify (fst (positions_get (paper_venue True 4) (fst ?w))))))
     = Some (pos 12 ORDER_TYPE_SELL 2 0 0 MAGIC ''REV of 100'')" by code_simp
  have t: "ticket (pos 12 ORDER_TYPE_SELL 2 0 0 MAGIC ''REV of 100'') = 12" by (simp add: pos_def)
  from last_reverse_of_an_original_is_linked [OF h, of initial_engine] h t show ?thesis by simp
qed

text \<open>
  C7, as the specification states it, fails on that snapshot: the two reverses 11 and 12
  both name the original 100; after the cycle the table links 100 to 12, and a modify
  request was sent for 12.
\<close>

theorem ambiguous_reverses_counterexample:
  "orig_to_rev (fst (cycle (paper_venue True 4)
        (initial_engine,
         ([pos 100 POSITION_TYPE_BUY 1 (1095 / 1000) (1105 / 1000) 0 '''',
           pos 11 ORDER_TYPE_SELL 2 0 0 MAGIC ''REV of 100'',
           pos 12 ORDER_TYPE_SELL 2 0 0 MAGIC ''REV of 100''], [])))) = [(100, 12)]
   \<and> issued ([pos 100 POSITION_TYPE_BUY 1 (1095 / 1000) (1105 / 1000) 0 '''',
           pos 11 ORDER_TYPE_SELL 2 0 0 MAGIC ''REV of 100'',
           pos 12 ORDER_TYPE_SELL 2 0 0 MAGIC ''REV of 100''], [])
        (snd (cycle (paper_venue True 4)
        (initial_engine,
         ([pos 100 POSITION_TYPE_BUY 1 (1095 / 1000) (1105 / 1000) 0 '''',
           pos 11 ORDER_TYPE_SELL 2 0 0 MAGIC ''REV of 100'',
           pos 12 ORDER_TYPE_SELL 2 0 0 MAGIC ''REV of 100''], []))))
     = [Sltp 12 ''EURUSD'' (1105 / 1000) (1095 / 1000)]"
  by code_simp

subsection \<open>The annotation and the classifier\<close>

text \<open>
  C8. The annotation written at line 232 parses back to the ticket (lemma \<open>parse_format\<close>
  above), but the parser does not refuse every other string: the pattern ends in \<^verbatim>\<open>$\<close>,
  which also matches before a final newline. The comment \<^verbatim>\<open>"REV of 123\n"\<close> is not the
  prefix followed by decimal digits, yet it parses to 123, and a position carrying it
  with the bot's magic number counts as a reverse of ours.
\<close>

theorem parse_accepts_trailing_newline:
  "parse_original_ticket_from_comment ''REV of 123\<newline>'' = Some 123
   \<and> is_our_reverse (pos 7 ORDER_TYPE_SELL 2 0 0 MAGIC ''REV of 123\<newline>'')"
  by code_simp

lemma open_step_ignores_magic: "open_step g (p\<lparr>magic := m\<rparr>) sw = open_step g p sw"
proof -
  have d: "desired_sltp_for_reverse (p\<lparr>magic := m\<rparr>) = desired_sltp_for_reverse p"
    by (simp add: desired_sltp_for_reverse_def)
  have l: "link_new_reverse (p\<lparr>magic := m\<rparr>) = link_new_reverse p"
    by (rule ext)+ (simp add: link_new_reverse_def split: option.splits)
  show ?thesis
    unfolding open_step_def d l
    by (simp cong: if_cong prod.case_cong option.case_cong)
qed

text \<open>
  C10. A position that carries the bot's magic number but whose comment does not start
  with the prefix is not a reverse of ours: the classifier puts it among the originals
  and not among the reverses, and the opening pass, which never reads the magic number,
  handles it as it would handle the same position under any other magic number.
\<close>

theorem tagged_without_prefix_is_original:
  assumes "magic p = MAGIC" and "\<not> prefix COMMENT_PREFIX (comment p)" and "p \<in> set all_positions"
  shows "\<not> is_our_reverse p
    \<and> p \<in> set (fst (classify all_positions))
    \<and> p \<notin> set (snd (classify all_positions))
    \<and> open_step g (p\<lparr>magic := m\<rparr>) sw = open_step g p sw"
  using assms by (simp add: is_our_reverse_def classify_def open_step_ignores_magic)

theorem tagged_without_prefix_is_original_witness:
  "magic (pos 100 POSITION_TYPE_BUY 1 0 0 MAGIC ''manual'') = MAGIC
   \<and> \<not> prefix COMMENT_PREFIX (comment (pos 100 POSITION_TYPE_BUY 1 0 0 MAGIC ''manual''))
   \<and> pos 100 POSITION_TYPE_BUY 1 0 0 MAGIC ''manual''
        \<in> set (fst (classify [pos 100 POSITION_TYPE_BUY 1 0 0 MAGIC ''manual'']))
   \<and> issued ([pos 100 POSITION_TYPE_BUY 1 0 0 MAGIC ''manual''], [])
        (snd (cycle (paper_venue True 4)
          (initial_engine, ([pos 100 POSITION_TYPE_BUY 1 0 0 MAGIC ''manual''], []))))
      = [Deal_open ''EURUSD'' ORDER_TYPE_SELL 2 (11 / 10) None None MAGIC ''REV of 100'']"
proof -
  let ?p = "pos 100 POSITION_TYPE_BUY 1 0 0 MAGIC ''manual''"
  have h1: "magic ?p = MAGIC" by code_simp
  have h2: "\<not> prefix COMMENT_PREFIX (comment ?p)" by code_simp
  have h3: "?p \<in> set [?p]" by simp
  have run: "issued ([?p], []) (snd (cycle (paper_venue True 4) (initial_engine, ([?p], []))))
      = [Deal_open ''EURUSD'' ORDER_TYPE_SELL 2 (11 / 10) None None MAGIC ''REV of 100'']"
    by code_simp
  from tagged_without_prefix_is_original [OF h1 h2 h3] h1 h2 run show ?thesis
    by blast
qed

subsection \<open>The original is gone\<close>

lemma pos_by_ticket_snoc: "pos_by_ticket (ps @ [p]) = (pos_by_ticket ps)(ticket p \<mapsto> p)"
  by (simp add: pos_by_ticket_def)

lemma pos_by_ticket_ticket: "pos_by_ticket ps j = Some p \<Longrightarrow> ticket p = j"
proof (induction ps rule: rev_induct)
  case Nil
  then show ?case by (simp add: pos_by_ticket_def)
next
  case (snoc x xs)
  then show ?case by (auto simp: pos_by_ticket_snoc split: if_splits)
qed

lemma not_close_Sltp_sync:
  "snd (sync_sltp g op rp w) = snd w @ evs \<Longrightarrow> filter (is_close_of r) (commands evs) = []"
  using sync_sltp_log [of g op rp w] by auto

text \<open>
  The close requests of the maintenance pass for the position \<open>r\<close> are as many as the
  tracked pairs with the reverse \<open>r\<close> whose original is not in the snapshot while \<open>r\<close> is.
\<close>

lemma sync_fold_closes:
  assumes "fold (sync_step g bt) items (st, w) = (st', w')"
    and "\<And>j p. bt j = Some p \<Longrightarrow> ticket p = j"
  shows "\<exists>evs. snd w' = snd w @ evs
    \<and> length (filter (is_close_of r) (commands evs))
        = length (filter (\<lambda>(k', r'). r' = r \<and> bt k' = None \<and> bt r' \<noteq> None) items)"
  using assms(1)
proof (induction items arbitrary: st w)
  case Nil
  then show ?case by simp
next
  case (Cons a items)
  obtain k' r' where a: "a = (k', r')" by (metis surj_pair)
  obtain st1 w1 where s: "sync_step g bt (k', r') (st, w) = (st1, w1)" by (metis surj_pair)
  with Cons.prems a have f: "fold (sync_step g bt) items (st1, w1) = (st', w')" by simp
  from Cons.IH [OF f] obtain e2 where e2: "snd w' = snd w1 @ e2"
    "length (filter (is_close_of r) (commands e2))
        = length (filter (\<lambda>(k', r'). r' = r \<and> bt k' = None \<and> bt r' \<noteq> None) items)"
    by blast
  have "\<exists>e1. snd w1 = snd w @ e1
      \<and> length (filter (is_close_of r) (commands e1))
          = (if r' = r \<and> bt k' = None \<and> bt r' \<noteq> None then 1 else 0)"
  proof (cases "bt k'")
    case None
    show ?thesis
    proof (cases "bt r'")
      case n: None
      with None sync_step_cases [OF s] show ?thesis by auto
    next
      case (Some rp)
      with assms(2) have "ticket rp = r'" by simp
      with None Some sync_step_cases [OF s] show ?thesis by auto
    qed
  next
    case (Some x)
    show ?thesis
    proof (cases "bt r'")
      case None
      with Some sync_step_cases [OF s] show ?thesis by auto
    next
      case s2: (Some rp)
      with Some sync_step_cases [OF s] have w1: "w1 = sync_sltp g x rp w" by simp
      from sync_sltp_log [of g x rp w] w1 Some show ?thesis by auto
    qed
  qed
  then obtain e1 where e1: "snd w1 = snd w @ e1"
    "length (filter (is_close_of r) (commands e1))
          = (if r' = r \<and> bt k' = None \<and> bt r' \<noteq> None then 1 else 0)" by blast
  have "snd w' = snd w @ (e1 @ e2)" using e1 e2 by simp
  moreover have "length (filter (is_close_of r) (commands (e1 @ e2)))
      = length (filter (\<lambda>(k', r'). r' = r \<and> bt k' = None \<and> bt r' \<noteq> None) (a # items))"
    using e1 e2 a by simp
  ultimately show ?case by blast
qed

lemma sync_fold_deletes:
  assumes "fold (sync_step g bt) items (st, w) = (st', w')"
    and "(k, r) \<in> set items" and "bt k = None"
  shows "map_of (orig_to_rev st') k = None"
  using assms
proof (induction items arbitrary: st w)
  case Nil
  then show ?case by simp
next
  case (Cons a items)
  obtain k' r' where a: "a = (k', r')" by (metis surj_pair)
  obtain st1 w1 where s: "sync_step g bt (k', r') (st, w) = (st1, w1)" by (metis surj_pair)
  with Cons.prems a have f: "fold (sync_step g bt) items (st1, w1) = (st', w')" by simp
  show ?case
  proof (cases "a = (k, r)")
    case True
    with a Cons.prems(3) sync_step_cases [OF s]
    have "orig_to_rev st1 = AList.delete k (orig_to_rev st)" by simp
    then have "map_of (orig_to_rev st1) k = None" by (simp add: delete_conv')
    with sync_fold_state [OF f] show ?thesis by blast
  next
    case False
    with Cons.prems have "(k, r) \<in> set items" by simp
    from Cons.IH [OF f this Cons.prems(3)] show ?thesis .
  qed
qed

lemma open_fold_no_close:
  assumes "fold (open_step g) ops (st, w) = (st', w')" and "snd w' = snd w @ evs"
  shows "filter (is_close_of r) (commands evs) = []"
proof -
  from open_fold_events [OF assms(1)] obtain e1 where e1: "snd w' = snd w @ e1"
    "\<forall>req \<in> set (commands e1). \<exists>op \<in> set ops.
          ticket op \<notin> reversed_once st \<and> map_of (orig_to_rev st) (ticket op) = None
          \<and> (\<exists>pr a b. req = Deal_open (symbol op) (reverse_type (ptype op))
                (py_round (volume op * 2) 2) pr a b MAGIC (COMMENT_PREFIX @ str_int (ticket op)))"
    by blast
  with assms(2) have "e1 = evs" by simp
  have "\<not> is_close_of r req" if "req \<in> set (commands e1)" for req
  proof -
    from e1(2) that have "\<exists>op \<in> set ops.
          ticket op \<notin> reversed_once st \<and> map_of (orig_to_rev st) (ticket op) = None
          \<and> (\<exists>pr a b. req = Deal_open (symbol op) (reverse_type (ptype op))
                (py_round (volume op * 2) 2) pr a b MAGIC (COMMENT_PREFIX @ str_int (ticket op)))"
      by (rule bspec)
    then show ?thesis by auto
  qed
  with \<open>e1 = evs\<close> show ?thesis by (simp add: filter_empty_conv)
qed

lemma length_filter_single:
  assumes "distinct xs" and "x \<in> set xs" and "P x"
    and "\<And>y. y \<in> set xs \<Longrightarrow> P y \<Longrightarrow> y = x"
  shows "length (filter P xs) = 1"
proof -
  have "{y. P y} \<inter> set xs = {x}" using assms(2,3,4) by blast
  with assms(1) show ?thesis by (simp add: distinct_length_filter)
qed

lemma pass_b_eq:
  "pass_b g (st, w) =
     fold (sync_step g (pos_by_ticket (fst (positions_get g (fst w))))) (orig_to_rev st)
       (st, (snd (positions_get g (fst w)), snd w))"
proof -
  obtain qs v1 where p: "positions_get g (fst w) = (qs, v1)" by (metis surj_pair)
  then show ?thesis by (simp add: pass_b_def call_def)
qed

lemma pass_a_wf: "pass_a g (st, w) = (st2, w2) \<Longrightarrow> wf_engine st \<Longrightarrow> wf_engine st2"
  using open_fold_state [of g _ "rebuild _ st" _ st2 w2] wf_rebuild [of st]
  by (simp add: pass_a_eq)

text \<open>
  C3. Take a pair \<open>(k, r)\<close> of the table as the maintenance pass finds it (after the opening
  pass of the same cycle), with \<open>r\<close> the reverse of no other pair, and let the original \<open>k\<close> be
  missing from the snapshot of line 252. Then the cycle sends exactly one close request
  for \<open>r\<close> when \<open>r\<close> is in that snapshot and none when it is not, and at the end of the
  cycle \<open>k\<close> has no entry in the table. No assumption is made on the venue: the pair is
  dropped whatever the answer to the close request is.
\<close>

theorem gone_original_closes_reverse_once:
  assumes "cycle g (st, w) = (st', w')" and "pass_a g (st, w) = (st2, w2)"
    and "wf_engine st"
    and "(k, r) \<in> set (orig_to_rev st2)"
    and "\<forall>k'. (k', r) \<in> set (orig_to_rev st2) \<longrightarrow> k' = k"
    and "pos_by_ticket (fst (positions_get g (fst w2))) k = None"
  shows "map_of (orig_to_rev st') k = None
    \<and> length (filter (is_close_of r) (issued w w'))
        = (if pos_by_ticket (fst (positions_get g (fst w2))) r = None then 0 else 1)"
proof -
  let ?bt = "pos_by_ticket (fst (positions_get g (fst w2)))"
  let ?w3 = "(snd (positions_get g (fst w2)), snd w2)"
  obtain st3 w4 where b: "fold (sync_step g ?bt) (orig_to_rev st2) (st2, ?w3) = (st3, w4)"
    by (metis surj_pair)
  then have pb: "pass_b g (st2, w2) = (st3, w4)" by (simp add: pass_b_eq)
  with assms(1,2) have fin: "st' = st3" "snd w' = snd w4" by (auto simp: cycle_def)
  from sync_fold_deletes [OF b assms(4,6)] fin have gone: "map_of (orig_to_rev st') k = None"
    by simp
  have "\<exists>evs. snd w4 = snd ?w3 @ evs
    \<and> length (filter (is_close_of r) (commands evs))
        = length (filter (\<lambda>(k', r'). r' = r \<and> ?bt k' = None \<and> ?bt r' \<noteq> None) (orig_to_rev st2))"
    by (rule sync_fold_closes [OF b]) (rule pos_by_ticket_ticket)
  then obtain e2 where
    e2: "snd w4 = snd w2 @ e2"
    "length (filter (is_close_of r) (commands e2))
        = length (filter (\<lambda>(k', r'). r' = r \<and> ?bt k' = None \<and> ?bt r' \<noteq> None) (orig_to_rev st2))"
    by (elim exE conjE) simp
  let ?ps = "fst (positions_get g (fst w))"
  from assms(2) have a: "fold (open_step g) (fst (classify ?ps))
      (rebuild (snd (classify ?ps)) st, (snd (positions_get g (fst w)), snd w)) = (st2, w2)"
    by (simp add: pass_a_eq)
  from open_fold_events [OF a] obtain e1 where e1: "snd w2 = snd w @ e1"
    by (elim exE conjE) simp
  with open_fold_no_close [where r = r and evs = e1, OF a] have nc: "filter (is_close_of r) (commands e1) = []"
    by simp
  from e1 e2 fin have "issued w w' = commands e1 @ commands e2" by (simp add: issued_def)
  with nc e2 have cnt: "length (filter (is_close_of r) (issued w w'))
      = length (filter (\<lambda>(k', r'). r' = r \<and> ?bt k' = None \<and> ?bt r' \<noteq> None) (orig_to_rev st2))"
    by simp
  from pass_a_wf [OF assms(2,3)] have "distinct (map fst (orig_to_rev st2))"
    by (simp add: wf_engine_def)
  then have d: "distinct (orig_to_rev st2)" by (simp add: distinct_map)
  define P where "P = (\<lambda>(k', r'). r' = r \<and> ?bt k' = None \<and> ?bt r' \<noteq> None)"
  from cnt have cntP: "length (filter (is_close_of r) (issued w w')) = length (filter P (orig_to_rev st2))"
    by (simp only: P_def)
  show ?thesis
  proof (cases "?bt r = None")
    case True
    have "\<not> P y" for y using True by (cases y) (simp add: P_def)
    then have "filter P (orig_to_rev st2) = []" by (simp add: filter_empty_conv)
    with cntP have "length (filter (is_close_of r) (issued w w')) = 0" by simp
    with gone True show ?thesis by simp
  next
    case False
    have Pk: "P (k, r)" using assms(6) False by (simp add: P_def)
    have uniq: "y = (k, r)" if "y \<in> set (orig_to_rev st2)" "P y" for y
    proof -
      obtain k' r' where y: "y = (k', r')" by (metis surj_pair)
      with that(2) have "r' = r" by (simp add: P_def)
      with y that(1) assms(5) show ?thesis by simp
    qed
    have "length (filter P (orig_to_rev st2)) = 1"
      by (rule length_filter_single [where P = P and x = "(k, r)", OF d assms(4) Pk uniq])
    with cntP have "length (filter (is_close_of r) (issued w w')) = 1" by simp
    with gone False show ?thesis by simp
  qed
qed

theorem gone_original_closes_reverse_once_witness:
  "wf_engine \<lparr>orig_to_rev = [(100, 101)], reversed_once = {100}\<rparr>
   \<and> orig_to_rev (fst (pass_a (paper_venue False 4)
        (\<lparr>orig_to_rev = [(100, 101)], reversed_once = {100}\<rparr>,
         ([pos 101 ORDER_TYPE_SELL 2 0 0 MAGIC ''REV of 100''], [])))) = [(100, 101)]
   \<and> pos_by_ticket (fst (positions_get (paper_venue False 4)
        (fst (snd (pass_a (paper_venue False 4)
          (\<lparr>orig_to_rev = [(100, 101)], reversed_once = {100}\<rparr>,
           ([pos 101 ORDER_TYPE_SELL 2 0 0 MAGIC ''REV of 100''], []))))))) 100 = None
   \<and> map_of (orig_to_rev (fst (cycle (paper_venue False 4)
        (\<lparr>orig_to_rev = [(100, 101)], reversed_once = {100}\<rparr>,
         ([pos 101 ORDER_TYPE_SELL 2 0 0 MAGIC ''REV of 100''], []))))) 100 = None
   \<and> length (filter (is_close_of 101)
        (issued ([pos 101 ORDER_TYPE_SELL 2 0 0 MAGIC ''REV of 100''], [])
          (snd (cycle (paper_venue False 4)
            (\<lparr>orig_to_rev = [(100, 101)], reversed_once = {100}\<rparr>,
             ([pos 101 ORDER_TYPE_SELL 2 0 0 MAGIC ''REV of 100''], [])))))) = 1"
proof -
  let ?g = "paper_venue False 4"
  let ?st = "\<lparr>orig_to_rev = [(100, 101)], reversed_once = {100}\<rparr>"
  let ?w = "([pos 101 ORDER_TYPE_SELL 2 0 0 MAGIC ''REV of 100''], []) :: TradePosition list world"
  have c: "cycle ?g (?st, ?w) = (fst (cycle ?g (?st, ?w)), snd (cycle ?g (?st, ?w)))" by simp
  have a: "pass_a ?g (?st, ?w) = (fst (pass_a ?g (?st, ?w)), snd (pass_a ?g (?st, ?w)))" by simp
  have wf: "wf_engine ?st" by code_simp
  have tab: "orig_to_rev (fst (pass_a ?g (?st, ?w))) = [(100, 101)]" by code_simp
  then have tracked: "(100, 101) \<in> set (orig_to_rev (fst (pass_a ?g (?st, ?w))))" by simp
  from tab have only: "\<forall>k'. (k', 101) \<in> set (orig_to_rev (fst (pass_a ?g (?st, ?w)))) \<longrightarrow> k' = 100"
    by simp
  have gone: "pos_by_ticket (fst (positions_get ?g (fst (snd (pass_a ?g (?st, ?w)))))) 100 = None"
    by code_simp
  have live: "pos_by_ticket (fst (positions_get ?g (fst (snd (pass_a ?g (?st, ?w)))))) 101 \<noteq> None"
    by code_simp
  from gone_original_closes_reverse_once [OF c a wf tracked only gone] live wf tab gone
  show ?thesis by simp
qed

subsection \<open>An open that did not lead to a link\<close>
























subsection \<open>Levels, for a symbol whose information does not change\<close>

lemma normalize_price_stable:
  assumes "\<And>v. fst (symbol_info g s v) = info"
  shows "fst (normalize_price g s x w) = rounded info x"
proof -
  obtain r v' where c: "symbol_info g s (fst w) = (r, v')" by (metis surj_pair)
  with assms [of "fst w"] have "r = info" by simp
  with c show ?thesis
    by (simp add: normalize_price_def call_def rounded_def split: option.splits)
qed

lemma level_differs_stable:
  assumes "\<And>v. fst (symbol_info g s v) = info"
  shows "fst (level_differs g s d c w) = (\<not> levels_agree info d c)"
proof (cases d)
  case None
  then show ?thesis by (simp add: level_differs_def levels_agree_def)
next
  case (Some x)
  show ?thesis
  proof (cases c)
    case None
    with Some show ?thesis by (simp add: level_differs_def levels_agree_def)
  next
    case c: (Some y)
    obtain nd w1 where n1: "normalize_price g s x w = (nd, w1)" by (metis surj_pair)
    obtain nc w2 where n2: "normalize_price g s y w1 = (nc, w2)" by (metis surj_pair)
    from n1 normalize_price_stable [OF assms, of x w] have "nd = rounded info x" by simp
    moreover from n2 normalize_price_stable [OF assms, of y w1] have "nc = rounded info y" by simp
    ultimately show ?thesis using Some c n1 n2
      by (simp add: level_differs_def levels_agree_def)
  qed
qed

lemma normalize_or_zero_stable:
  assumes "\<And>v. fst (symbol_info g s v) = info"
  shows "fst (normalize_or_zero g s l w) = sent_level info l"
  using normalize_price_stable [OF assms]
  by (simp add: normalize_or_zero_def sent_level_def split: option.splits)

lemma modify_position_sltp_stable:
  assumes "\<And>v. fst (symbol_info g s v) = info"
  shows "\<exists>res. snd (snd (modify_position_sltp g tk s a b w))
      = snd w @ [Sent (Sltp tk s (sent_level info a) (sent_level info b)) res]"
proof -
  obtain nsl w1 where n1: "normalize_or_zero g s a w = (nsl, w1)" by (metis surj_pair)
  then have l1: "snd w1 = snd w" by (metis log_normalize_or_zero snd_conv)
  obtain ntp w2 where n2: "normalize_or_zero g s b w1 = (ntp, w2)" by (metis surj_pair)
  then have l2: "snd w2 = snd w" using l1 by (metis log_normalize_or_zero snd_conv)
  from n1 normalize_or_zero_stable [OF assms, of a w] have a: "nsl = sent_level info a" by simp
  from n2 normalize_or_zero_stable [OF assms, of b w1] have b: "ntp = sent_level info b" by simp
  obtain res w3 where s: "send g (Sltp tk s nsl ntp) w2 = (res, w3)" by (metis surj_pair)
  then have l3: "snd w3 = snd w @ [Sent (Sltp tk s nsl ntp) res]" using l2 send_eq by fastforce
  have "snd (snd (modify_position_sltp g tk s a b w)) = snd w3"
    using n1 n2 s by (simp add: modify_position_sltp_def split: option.splits)
  with l3 a b show ?thesis by simp
qed

text \<open>
  The maintenance of a live pair: nothing is sent when both levels of the reverse agree,
  after rounding, with the desired ones; otherwise one modify request carries both
  desired levels, rounded, with 0 for a level that is unset.
\<close>

lemma sync_sltp_stable:
  assumes "\<And>v. fst (symbol_info g (symbol rev_pos) v) = info"
  shows "issued w (sync_sltp g orig_pos rev_pos w) =
     (if levels_agree info (fst (desired_sltp_for_reverse orig_pos)) (current_level (sl rev_pos))
         \<and> levels_agree info (snd (desired_sltp_for_reverse orig_pos)) (current_level (tp rev_pos))
      then []
      else [Sltp (ticket rev_pos) (symbol rev_pos)
              (sent_level info (fst (desired_sltp_for_reverse orig_pos)))
              (sent_level info (snd (desired_sltp_for_reverse orig_pos)))])"
proof -
  obtain dsl dtp where d: "desired_sltp_for_reverse orig_pos = (dsl, dtp)" by (metis surj_pair)
  obtain x w1 where a: "level_differs g (symbol rev_pos) dsl (current_level (sl rev_pos)) w = (x, w1)"
    by (metis surj_pair)
  then have l1: "snd w1 = snd w" by (metis log_level_differs snd_conv)
  obtain y w2 where b: "level_differs g (symbol rev_pos) dtp (current_level (tp rev_pos)) w1 = (y, w2)"
    by (metis surj_pair)
  then have l2: "snd w2 = snd w" using l1 by (metis log_level_differs snd_conv)
  from a level_differs_stable [OF assms, of dsl "current_level (sl rev_pos)" w]
  have x: "x = (\<not> levels_agree info dsl (current_level (sl rev_pos)))" by simp
  from b level_differs_stable [OF assms, of dtp "current_level (tp rev_pos)" w1]
  have y: "y = (\<not> levels_agree info dtp (current_level (tp rev_pos)))" by simp
  show ?thesis
  proof (cases "x \<or> y")
    case True
    with d a b have "sync_sltp g orig_pos rev_pos w
        = snd (modify_position_sltp g (ticket rev_pos) (symbol rev_pos) dsl dtp w2)"
      by (auto simp: sync_sltp_def)
    with modify_position_sltp_stable [OF assms, of "ticket rev_pos" dsl dtp w2] l2
    obtain res where "snd (sync_sltp g orig_pos rev_pos w)
        = snd w @ [Sent (Sltp (ticket rev_pos) (symbol rev_pos)
            (sent_level info dsl) (sent_level info dtp)) res]" by auto
    then have "issued w (sync_sltp g orig_pos rev_pos w)
        = [Sltp (ticket rev_pos) (symbol rev_pos) (sent_level info dsl) (sent_level info dtp)]"
      by (simp add: issued_def)
    with True x y d show ?thesis by auto
  next
    case False
    with d a b have "sync_sltp g orig_pos rev_pos w = w2"
      by (auto simp: sync_sltp_def)
    with l2 have "issued w (sync_sltp g orig_pos rev_pos w) = []" by (simp add: issued_def)
    with False x y d show ?thesis by auto
  qed
qed

lemma sync_step_live:
  assumes "bt k = Some orig_pos" and "bt r = Some rev_pos"
    and "sync_step g bt (k, r) (st, w) = (st', w')"
  shows "st' = st \<and> w' = sync_sltp g orig_pos rev_pos w"
  using sync_step_cases [OF assms(3)] assms(1,2) by simp

text \<open>
  C2, as the code has it. The desired stop-loss of the reverse is the original's
  take-profit and the desired take-profit is the original's stop-loss; a desired level is
  unset exactly when the original's field is not positive (zero or negative: the test of
  lines 92-93 is \<^verbatim>\<open>> 0\<close>). For a pair whose two positions are live the maintenance pass
  changes nothing in the engine and sends no request when the reverse's levels agree with
  the desired ones after rounding; otherwise it sends one modify request for the reverse
  that carries both desired levels rounded to the instrument's digits, 0 standing for
  unset.
\<close>

theorem swapped_levels_are_sent:
  assumes "\<And>v. fst (symbol_info g (symbol rev_pos) v) = info"
    and "bt k = Some orig_pos" and "bt r = Some rev_pos"
    and "sync_step g bt (k, r) (st, w) = (st', w')"
  shows "desired_sltp_for_reverse orig_pos
      = (if 0 < tp orig_pos then Some (tp orig_pos) else None,
         if 0 < sl orig_pos then Some (sl orig_pos) else None)
    \<and> st' = st
    \<and> issued w w' =
        (if levels_agree info (fst (desired_sltp_for_reverse orig_pos)) (current_level (sl rev_pos))
            \<and> levels_agree info (snd (desired_sltp_for_reverse orig_pos)) (current_level (tp rev_pos))
         then []
         else [Sltp (ticket rev_pos) (symbol rev_pos)
                 (sent_level info (fst (desired_sltp_for_reverse orig_pos)))
                 (sent_level info (snd (desired_sltp_for_reverse orig_pos)))])"
proof -
  have "desired_sltp_for_reverse orig_pos
      = (if 0 < tp orig_pos then Some (tp orig_pos) else None,
         if 0 < sl orig_pos then Some (sl orig_pos) else None)"
    by (simp add: desired_sltp_for_reverse_def)
  moreover from sync_step_live [OF assms(2,3,4)]
  have "st' = st" "w' = sync_sltp g orig_pos rev_pos w" by simp_all
  ultimately show ?thesis using sync_sltp_stable [OF assms(1), of w orig_pos] by simp
qed

theorem swapped_levels_are_sent_witness:
  "pos_by_ticket [pos 100 POSITION_TYPE_BUY 1 (1095 / 1000) (1105 / 1000) 0 '''',
                  pos 101 ORDER_TYPE_SELL 2 0 0 MAGIC ''REV of 100''] 100
     = Some (pos 100 POSITION_TYPE_BUY 1 (1095 / 1000) (1105 / 1000) 0 '''')
   \<and> pos_by_ticket [pos 100 POSITION_TYPE_BUY 1 (1095 / 1000) (1105 / 1000) 0 '''',
                  pos 101 ORDER_TYPE_SELL 2 0 0 MAGIC ''REV of 100''] 101
     = Some (pos 101 ORDER_TYPE_SELL 2 0 0 MAGIC ''REV of 100'')
   \<and> desired_sltp_for_reverse (pos 100 POSITION_TYPE_BUY 1 (1095 / 1000) (1105 / 1000) 0 '''')
     = (Some (1105 / 1000), Some (1095 / 1000))
   \<and> issued ([], [])
       (snd (sync_step (paper_venue True 4)
          (pos_by_ticket [pos 100 POSITION_TYPE_BUY 1 (1095 / 1000) (1105 / 1000) 0 '''',
                          pos 101 ORDER_TYPE_SELL 2 0 0 MAGIC ''REV of 100''])
          (100, 101) (\<lparr>orig_to_rev = [(100, 101)], reversed_once = {100}\<rparr>, ([], []))))
     = [Sltp 101 ''EURUSD'' (1105 / 1000) (1095 / 1000)]"
proof -
  let ?g = "paper_venue True 4"
  let ?o = "pos 100 POSITION_TYPE_BUY 1 (1095 / 1000) (1105 / 1000) 0 ''''"
  let ?r = "pos 101 ORDER_TYPE_SELL 2 0 0 MAGIC ''REV of 100''"
  let ?bt = "pos_by_ticket [?o, ?r]"
  let ?st = "\<lparr>orig_to_rev = [(100, 101)], reversed_once = {100}\<rparr>"
  let ?w = "([], []) :: TradePosition list world"
  have i: "\<And>v. fst (symbol_info ?g (symbol ?r) v) = Some \<lparr>digits = 4, visible = True\<rparr>"
    by (simp add: paper_venue_def)
  have o: "?bt 100 = Some ?o" by (simp add: pos_by_ticket_def pos_def)
  have r: "?bt 101 = Some ?r" by (simp add: pos_by_ticket_def pos_def)
  have s: "sync_step ?g ?bt (100, 101) (?st, ?w)
      = (fst (sync_step ?g ?bt (100, 101) (?st, ?w)), snd (sync_step ?g ?bt (100, 101) (?st, ?w)))"
    by simp
  have d: "desired_sltp_for_reverse ?o = (Some (1105 / 1000), Some (1095 / 1000))" by code_simp
  have run: "issued ?w (snd (sync_step ?g ?bt (100, 101) (?st, ?w)))
      = [Sltp 101 ''EURUSD'' (1105 / 1000) (1095 / 1000)]"
    by code_simp
  from swapped_levels_are_sent [OF i o r s] o r d run show ?thesis
    by - (intro conjI, assumption+)
qed

text \<open>
  C2, as the specification states it, fails in two places. An original whose take-profit
  is negative has a field that is neither absent nor zero, yet the desired stop-loss is
  unset. And the level sent is the desired one only after rounding: with two digits an
  original take-profit of 1.23456 makes the pass set the reverse's stop-loss to 1.23.
\<close>

theorem swap_rule_counterexample:
  "fst (desired_sltp_for_reverse (pos 100 POSITION_TYPE_BUY 1 0 (- 1) 0 '''')) = None
   \<and> tp (pos 100 POSITION_TYPE_BUY 1 0 (- 1) 0 '''') = - 1
   \<and> issued ([], [])
       (sync_sltp (paper_venue True 2)
          (pos 100 POSITION_TYPE_BUY 1 0 (123456 / 100000) 0 '''')
          (pos 101 ORDER_TYPE_SELL 2 0 0 MAGIC ''REV of 100'') ([], []))
     = [Sltp 101 ''EURUSD'' (123 / 100) 0]"
  by code_simp

text \<open>
  C5. Let the instrument of a live pair report its digits. If the desired and the current
  stop-loss are both set and equal after rounding to those digits, the pass sends a modify
  request exactly when the take-profit pair disagrees, so never on account of the
  stop-loss pair, however the raw values differ; the same holds with the two levels
  exchanged; and when both pairs are equal after rounding nothing is sent.
\<close>

theorem equal_after_rounding_sends_nothing:
  assumes "\<And>v. fst (symbol_info g (symbol rev_pos) v) = Some i"
    and "bt k = Some orig_pos" and "bt r = Some rev_pos"
    and "sync_step g bt (k, r) (st, w) = (st', w')"
  shows "(\<forall>x y. fst (desired_sltp_for_reverse orig_pos) = Some x \<and> current_level (sl rev_pos) = Some y
            \<and> py_round x (digits i) = py_round y (digits i)
          \<longrightarrow> (issued w w' = [])
              = levels_agree (Some i) (snd (desired_sltp_for_reverse orig_pos)) (current_level (tp rev_pos)))
    \<and> (\<forall>x y. snd (desired_sltp_for_reverse orig_pos) = Some x \<and> current_level (tp rev_pos) = Some y
            \<and> py_round x (digits i) = py_round y (digits i)
          \<longrightarrow> (issued w w' = [])
              = levels_agree (Some i) (fst (desired_sltp_for_reverse orig_pos)) (current_level (sl rev_pos)))
    \<and> (\<forall>x y x' y'. fst (desired_sltp_for_reverse orig_pos) = Some x \<and> current_level (sl rev_pos) = Some y
            \<and> py_round x (digits i) = py_round y (digits i)
            \<and> snd (desired_sltp_for_reverse orig_pos) = Some x' \<and> current_level (tp rev_pos) = Some y'
            \<and> py_round x' (digits i) = py_round y' (digits i)
          \<longrightarrow> issued w w' = [])"
proof -
  from sync_step_live [OF assms(2,3,4)] have "w' = sync_sltp g orig_pos rev_pos w" by simp
  with sync_sltp_stable [OF assms(1), of w orig_pos]
  have iss: "issued w w' =
     (if levels_agree (Some i) (fst (desired_sltp_for_reverse orig_pos)) (current_level (sl rev_pos))
         \<and> levels_agree (Some i) (snd (desired_sltp_for_reverse orig_pos)) (current_level (tp rev_pos))
      then []
      else [Sltp (ticket rev_pos) (symbol rev_pos)
              (sent_level (Some i) (fst (desired_sltp_for_reverse orig_pos)))
              (sent_level (Some i) (snd (desired_sltp_for_reverse orig_pos)))])"
    by simp
  have agree: "levels_agree (Some i) (Some x) (Some y)"
    if "py_round x (digits i) = py_round y (digits i)" for x y
    using that by (simp add: levels_agree_def rounded_def)
  show ?thesis
    unfolding iss using agree by (auto split: if_splits)
qed

theorem equal_after_rounding_sends_nothing_witness:
  "pos_by_ticket [pos 100 POSITION_TYPE_BUY 1 0 (110004 / 100000) 0 '''',
                  pos 101 ORDER_TYPE_SELL 2 (11 / 10) 0 MAGIC ''REV of 100''] 100
     = Some (pos 100 POSITION_TYPE_BUY 1 0 (110004 / 100000) 0 '''')
   \<and> pos_by_ticket [pos 100 POSITION_TYPE_BUY 1 0 (110004 / 100000) 0 '''',
                  pos 101 ORDER_TYPE_SELL 2 (11 / 10) 0 MAGIC ''REV of 100''] 101
     = Some (pos 101 ORDER_TYPE_SELL 2 (11 / 10) 0 MAGIC ''REV of 100'')
   \<and> fst (desired_sltp_for_reverse (pos 100 POSITION_TYPE_BUY 1 0 (110004 / 100000) 0 ''''))
     = Some (110004 / 100000)
   \<and> current_level (sl (pos 101 ORDER_TYPE_SELL 2 (11 / 10) 0 MAGIC ''REV of 100'')) = Some (11 / 10)
   \<and> py_round (110004 / 100000) 4 = py_round (11 / 10) 4
   \<and> (110004 / 100000 :: real) \<noteq> 11 / 10
   \<and> issued ([], [])
       (snd (sync_step (paper_venue True 4)
          (pos_by_ticket [pos 100 POSITION_TYPE_BUY 1 0 (110004 / 100000) 0 '''',
                          pos 101 ORDER_TYPE_SELL 2 (11 / 10) 0 MAGIC ''REV of 100''])
          (100, 101) (\<lparr>orig_to_rev = [(100, 101)], reversed_once = {100}\<rparr>, ([], [])))) = []"
proof -
  let ?g = "paper_venue True 4"
  let ?o = "pos 100 POSITION_TYPE_BUY 1 0 (110004 / 100000) 0 ''''"
  let ?r = "pos 101 ORDER_TYPE_SELL 2 (11 / 10) 0 MAGIC ''REV of 100''"
  let ?bt = "pos_by_ticket [?o, ?r]"
  let ?st = "\<lparr>orig_to_rev = [(100, 101)], reversed_once = {100}\<rparr>"
  let ?w = "([], []) :: TradePosition list world"
  have i: "\<And>v. fst (symbol_info ?g (symbol ?r) v) = Some \<lparr>digits = 4, visible = True\<rparr>"
    by (simp add: paper_venue_def)
  have o: "?bt 100 = Some ?o" by (simp add: pos_by_ticket_def pos_def)
  have r: "?bt 101 = Some ?r" by (simp add: pos_by_ticket_def pos_def)
  have s: "sync_step ?g ?bt (100, 101) (?st, ?w)
      = (fst (sync_step ?g ?bt (100, 101) (?st, ?w)), snd (sync_step ?g ?bt (100, 101) (?st, ?w)))"
    by simp
  have d: "fst (desired_sltp_for_reverse ?o) = Some (110004 / 100000)" by code_simp
  have c: "current_level (sl ?r) = Some (11 / 10)" by code_simp
  have e: "py_round (110004 / 100000) 4 = py_round (11 / 10) 4" by code_simp
  have e': "py_round (110004 / 100000) (digits \<lparr>digits = 4, visible = True\<rparr>)
      = py_round (11 / 10) (digits \<lparr>digits = 4, visible = True\<rparr>)" by code_simp
  have n: "(110004 / 100000 :: real) \<noteq> 11 / 10" by simp
  have a: "levels_agree (Some \<lparr>digits = 4, visible = True\<rparr>)
      (snd (desired_sltp_for_reverse ?o)) (current_level (tp ?r))" by code_simp
  have "(issued ?w (snd (sync_step ?g ?bt (100, 101) (?st, ?w))) = [])
      = levels_agree (Some \<lparr>digits = 4, visible = True\<rparr>)
          (snd (desired_sltp_for_reverse ?o)) (current_level (tp ?r))"
    by (rule conjunct1 [OF equal_after_rounding_sends_nothing [OF i o r s], rule_format])
      (intro conjI, rule d, rule c, rule e')
  with a have "issued ?w (snd (sync_step ?g ?bt (100, 101) (?st, ?w))) = []" by simp
  with o r d c e n show ?thesis by - (intro conjI, assumption+)
qed

end
